(* ===== verification/Prelude.thy ===== *)
theory Prelude
  imports Complex_Main "HOL-Library.Word" "HOL-Library.AList"
begin

text \<open>
  Shared vocabulary of the development: the errors a search can raise, the result
  types (\<open>js_error + 'a\<close> for a thrown exception, an outer \<open>option\<close> for a loop that
  may not return), their bind operators, and the generic lemmas on lists, sorting and
  association lists that the component theories use.
\<close>

section \<open>Errors and results\<close>

text \<open>
  \<open>DimensionMismatch\<close> is the \<^verbatim>\<open>Error("Arrays must be of the same length")\<close> thrown by
  \<^verbatim>\<open>euclideanDistanceSquared\<close>; \<open>UndefinedRead\<close> is the \<^verbatim>\<open>TypeError\<close> of reading
  \<^verbatim>\<open>[1]\<close> of \<^verbatim>\<open>undefined\<close> (\<^verbatim>\<open>currentBest[currentBest.length - 1][1]\<close> on an
  empty list).
\<close>

datatype js_error = DimensionMismatch | UndefinedRead

type_synonym 'a result = "js_error + 'a"

text \<open>An outcome: \<open>None\<close> is a computation that does not return.\<close>

type_synonym 'a outcome = "'a result option"

definition bind_result :: "'a result \<Rightarrow> ('a \<Rightarrow> 'b result) \<Rightarrow> 'b result" where
  "bind_result m f = (case m of Inl e \<Rightarrow> Inl e | Inr a \<Rightarrow> f a)"

definition bind_outcome :: "'a outcome \<Rightarrow> ('a \<Rightarrow> 'b outcome) \<Rightarrow> 'b outcome" where
  "bind_outcome m f = (case m of None \<Rightarrow> None | Some (Inl e) \<Rightarrow> Some (Inl e) | Some (Inr a) \<Rightarrow> f a)"

text \<open>\<^verbatim>\<open>xs.map(f)\<close> with an \<open>f\<close> that may throw: the first exception propagates.\<close>

fun map_result :: "('a \<Rightarrow> 'b result) \<Rightarrow> 'a list \<Rightarrow> 'b list result" where
  "map_result f [] = Inr []"
| "map_result f (x # xs) =
     bind_result (f x) (\<lambda>y. bind_result (map_result f xs) (\<lambda>ys. Inr (y # ys)))"

named_theorems result_simps "evaluation rules of the result combinators"

lemma bind_result_simps [simp, result_simps]:
  "bind_result (Inl e) f = Inl e"
  "bind_result (Inr a) f = f a"
  by (simp_all add: bind_result_def)

lemma bind_outcome_simps [simp, result_simps]:
  "bind_outcome None f = None"
  "bind_outcome (Some (Inl e)) f = Some (Inl e)"
  "bind_outcome (Some (Inr a)) f = f a"
  by (simp_all add: bind_outcome_def)

lemma bind_result_Inr_iff [result_simps]:
  "bind_result m f = Inr b \<longleftrightarrow> (\<exists>a. m = Inr a \<and> f a = Inr b)"
  by (cases m) auto

lemma bind_result_Inl_iff [result_simps]:
  "bind_result m f = Inl e \<longleftrightarrow> m = Inl e \<or> (\<exists>a. m = Inr a \<and> f a = Inl e)"
  by (cases m) auto

lemma bind_outcome_Some_Inr_iff [result_simps]:
  "bind_outcome m f = Some (Inr b) \<longleftrightarrow> (\<exists>a. m = Some (Inr a) \<and> f a = Some (Inr b))"
  by (auto simp: bind_outcome_def split: option.splits sum.splits)

lemma map_result_Inr:
  "map_result f xs = Inr ys \<Longrightarrow> length ys = length xs \<and> (\<forall>i < length xs. f (xs ! i) = Inr (ys ! i))"
proof (induction xs arbitrary: ys)
  case Nil
  then show ?case by simp
next
  case (Cons x xs)
  then obtain y ys' where "f x = Inr y" "map_result f xs = Inr ys'" "ys = y # ys'"
    by (auto simp: bind_result_Inr_iff)
  with Cons.IH show ?case by (auto simp: nth_Cons split: nat.splits)
qed

lemma map_result_all_Inr:
  "(\<And>x. x \<in> set xs \<Longrightarrow> \<exists>y. f x = Inr y) \<Longrightarrow> \<exists>ys. map_result f xs = Inr ys"
  by (induction xs) fastforce+

lemma map_result_Inl:
  "map_result f xs = Inl e \<Longrightarrow> \<exists>x \<in> set xs. f x = Inl e"
  by (induction xs) (auto simp: bind_result_Inl_iff)

section \<open>Lists, sorting, association lists\<close>

text \<open>
  JavaScript's \<^verbatim>\<open>Array.prototype.sort\<close> is stable (ES2019); with the comparator
  \<^verbatim>\<open>(a, b) => a[1] - b[1]\<close> it is \<open>sort_key snd\<close>, whose stability is the library's
  \<open>sort_key_stable\<close>.
\<close>

lemma distinct_map_sort_key [simp]:
  "distinct (map g (sort_key f xs)) = distinct (map g xs)"
  by (simp add: distinct_map)

lemma set_map_sort_key [simp]: "set (map g (sort_key f xs)) = set (map g xs)"
  by simp

lemma sorted_map_take [intro]: "sorted (map f xs) \<Longrightarrow> sorted (map f (take n xs))"
  by (metis append_take_drop_id map_append sorted_append)

lemma distinct_map_take [intro]: "distinct (map f xs) \<Longrightarrow> distinct (map f (take n xs))"
  by (simp add: take_map [symmetric])

lemma set_map_take_subset: "set (map f (take n xs)) \<subseteq> set (map f xs)"
  by (simp add: image_mono set_take_subset)

lemma sorted_key_snoc:
  "sorted (map f xs) \<Longrightarrow> (\<forall>x \<in> set xs. f x \<le> f y) \<Longrightarrow> sorted (map f (xs @ [y]))"
  by (simp add: sorted_append)

lemma fst_set_update [simp]: "fst ` set (AList.update k v al) = insert k (fst ` set al)"
  by (simp add: AList.dom_update)

lemma set_update_subset: "set (AList.update k v al) \<subseteq> insert (k, v) (set al)"
  by (induction al) auto

lemma card_mono_strict_insert:
  "finite B \<Longrightarrow> x \<in> B \<Longrightarrow> x \<notin> A \<Longrightarrow> card (B - insert x A) < card (B - A)"
  by (metis Diff_insert DiffI card_Diff1_less finite_Diff)

end
