(* ===== verification/Distance.thy ===== *)
theory Distance
  imports Prelude
begin

text \<open>
  The DistanceMetric component: \<^verbatim>\<open>euclideanDistanceSquared\<close> of
  \<^verbatim>\<open>src/scripts/vectordb_utils.js\<close> (squared Euclidean distance of two float
  vectors) and its dequantising twin of \<^verbatim>\<open>src/scripts/vectordb_utils_quantized.js\<close>
  (every component divided by \<open>2 ^ bits - 1\<close> first). JavaScript numbers are modelled
  as \<open>real\<close>: the floating-point rounding of the sums is not modelled. Both functions
  are the same \<^verbatim>\<open>for\<close> loop, \<open>accumulate_loop\<close>, over a different summand; the
  lemmas show that the loop computes the reference sum \<open>sq_euclid\<close>, that a length
  mismatch is the only error, and the metric facts the search relies on.
\<close>

section \<open>The accumulation loop\<close>

text \<open>
  \<^verbatim>\<open>let sum = 0; for (let i = 0; i < arr1.length; i++) { sum += term(i); } return sum;\<close>
\<close>

function accumulate_loop :: "(nat \<Rightarrow> real) \<Rightarrow> nat \<Rightarrow> nat \<Rightarrow> real \<Rightarrow> real" where
  "accumulate_loop term n i s = (if i < n then accumulate_loop term n (Suc i) (s + term i) else s)"
  by pat_completeness auto
termination
  by (relation "measure (\<lambda>(term, n, i, s). n - i)") auto

declare accumulate_loop.simps [simp del]

lemma accumulate_loop_sum: "accumulate_loop t n i s = s + (\<Sum>j = i..<n. t j)"
proof (induction t n i s rule: accumulate_loop.induct)
  case (1 t n i s)
  show ?case
  proof (cases "i < n")
    case True
    with "1.IH" have "accumulate_loop t n (Suc i) (s + t i) = s + t i + (\<Sum>j = Suc i..<n. t j)"
      by simp
    with True show ?thesis
      by (simp add: accumulate_loop.simps [of t n i s] sum.atLeast_Suc_lessThan)
  next
    case False
    then show ?thesis by (simp add: accumulate_loop.simps [of t n i s])
  qed
qed

section \<open>Plain distance\<close>

text \<open>Reference definition: the sum of squared per-dimension differences.\<close>

definition sq_euclid :: "real list \<Rightarrow> real list \<Rightarrow> real" where
  "sq_euclid a b = (\<Sum>i < length a. (a ! i - b ! i)\<^sup>2)"

text \<open>\<^verbatim>\<open>euclideanDistanceSquared(arr1, arr2)\<close>, \<^verbatim>\<open>vectordb_utils.js\<close> lines 52--61.\<close>

definition euclideanDistanceSquared :: "real list \<Rightarrow> real list \<Rightarrow> real result" where
  "euclideanDistanceSquared arr1 arr2 =
     (if length arr1 \<noteq> length arr2 then Inl DimensionMismatch
      else Inr (accumulate_loop (\<lambda>i. (arr1 ! i - arr2 ! i)\<^sup>2) (length arr1) 0 0))"

section \<open>Dequantising distance\<close>

text \<open>\<^verbatim>\<open>const scale = 2 ** bitsPerDimension - 1\<close>\<close>

definition quant_scale :: "nat \<Rightarrow> real" where
  "quant_scale bits = 2 ^ bits - 1"

text \<open>
  \<^verbatim>\<open>euclideanDistanceSquared(arr1, arr2, bitsPerDimension = 8)\<close>,
  \<^verbatim>\<open>vectordb_utils_quantized.js\<close> lines 56--68: the scale is computed before the
  length check, which throws the same error.
\<close>

definition euclideanDistanceSquared_q :: "nat \<Rightarrow> real list \<Rightarrow> real list \<Rightarrow> real result" where
  "euclideanDistanceSquared_q bitsPerDimension arr1 arr2 =
     (let scale = quant_scale bitsPerDimension in
      if length arr1 \<noteq> length arr2 then Inl DimensionMismatch
      else Inr (accumulate_loop (\<lambda>i. (arr1 ! i / scale - arr2 ! i / scale)\<^sup>2) (length arr1) 0 0))"

section \<open>Properties\<close>

lemma sq_euclid_sym: "length a = length b \<Longrightarrow> sq_euclid a b = sq_euclid b a"
  by (simp add: sq_euclid_def power2_commute)

lemma sq_euclid_nonneg: "0 \<le> sq_euclid a b"
  by (simp add: sq_euclid_def sum_nonneg)

lemma sq_euclid_eq_0_iff: "length a = length b \<Longrightarrow> sq_euclid a b = 0 \<longleftrightarrow> a = b"
  by (auto simp: sq_euclid_def sum_nonneg_eq_0_iff list_eq_iff_nth_eq)

lemma quant_scale_pos: "0 < bits \<Longrightarrow> 0 < quant_scale bits"
  by (simp add: quant_scale_def)

lemma euclideanDistanceSquared_unfold:
  "euclideanDistanceSquared a b =
     (if length a \<noteq> length b then Inl DimensionMismatch else Inr (sq_euclid a b))"
  by (simp add: euclideanDistanceSquared_def accumulate_loop_sum sq_euclid_def atLeast0LessThan)

text \<open>C5: on vectors of one length the loop computes the reference sum.\<close>

theorem euclideanDistanceSquared_correct:
  "length a = length b \<Longrightarrow> euclideanDistanceSquared a b = Inr (sq_euclid a b)"
  by (simp add: euclideanDistanceSquared_def accumulate_loop_sum sq_euclid_def atLeast0LessThan)

theorem euclideanDistanceSquared_correct_witness:
  "length [0, 0 :: real] = length [3, 4 :: real] \<and>
   euclideanDistanceSquared [0, 0] [3, 4] = Inr (sq_euclid [0, 0] [3, 4]) \<and>
   sq_euclid [0, 0] [3, 4] = 25"
  using euclideanDistanceSquared_correct [of "[0, 0]" "[3, 4]"]
  by (simp add: sq_euclid_def numeral_2_eq_2 lessThan_Suc)

text \<open>Vectors of different lengths always raise the dimension error.\<close>

theorem euclideanDistanceSquared_mismatch:
  "length a \<noteq> length b \<Longrightarrow> euclideanDistanceSquared a b = Inl DimensionMismatch"
  by (simp add: euclideanDistanceSquared_def)

theorem euclideanDistanceSquared_mismatch_witness:
  "length [1 :: real] \<noteq> length [1, 2 :: real] \<and>
   euclideanDistanceSquared [1] [1, 2] = Inl DimensionMismatch"
  using euclideanDistanceSquared_mismatch [of "[1]" "[1, 2]"] by simp

lemma euclideanDistanceSquared_Inr_iff:
  "euclideanDistanceSquared a b = Inr d \<longleftrightarrow> length a = length b \<and> d = sq_euclid a b"
  by (auto simp: euclideanDistanceSquared_unfold)

text \<open>C32: the distance is symmetric (errors included), non-negative, and zero exactly on equal vectors.\<close>

theorem euclideanDistanceSquared_metric:
  "euclideanDistanceSquared a b = euclideanDistanceSquared b a \<and>
   (case euclideanDistanceSquared a b of Inl _ \<Rightarrow> True | Inr d \<Rightarrow> 0 \<le> d) \<and>
   (euclideanDistanceSquared a b = Inr 0 \<longleftrightarrow> a = b)"
proof (intro conjI)
  show "euclideanDistanceSquared a b = euclideanDistanceSquared b a"
    by (simp add: euclideanDistanceSquared_unfold sq_euclid_sym)
  show "case euclideanDistanceSquared a b of Inl _ \<Rightarrow> True | Inr d \<Rightarrow> 0 \<le> d"
    by (auto simp: euclideanDistanceSquared_Inr_iff sq_euclid_nonneg split: sum.split)
  show "euclideanDistanceSquared a b = Inr 0 \<longleftrightarrow> a = b"
    by (auto simp: euclideanDistanceSquared_Inr_iff sq_euclid_eq_0_iff)
qed

lemma euclideanDistanceSquared_q_scaled:
  "euclideanDistanceSquared_q bits a b =
     map_sum id (\<lambda>d. d / (quant_scale bits)\<^sup>2) (euclideanDistanceSquared a b)"
proof (cases "length a = length b")
  case True
  have "(\<Sum>i<length a. (a ! i / quant_scale bits - b ! i / quant_scale bits)\<^sup>2) =
        (\<Sum>i<length a. (a ! i - b ! i)\<^sup>2) / (quant_scale bits)\<^sup>2"
    by (simp add: sum_divide_distrib diff_divide_distrib [symmetric] power_divide)
  with True show ?thesis
    by (simp add: euclideanDistanceSquared_q_def euclideanDistanceSquared_unfold
        accumulate_loop_sum sq_euclid_def atLeast0LessThan)
next
  case False
  then show ?thesis
    by (simp add: euclideanDistanceSquared_q_def euclideanDistanceSquared_unfold)
qed

text \<open>
  C33: the dequantising distance is the plain distance divided by \<open>scale\<^sup>2\<close>; so for
  \<open>bits > 0\<close> it orders candidates exactly as the plain distance of the integer vectors.
\<close>

theorem euclideanDistanceSquared_q_order:
  assumes "0 < bits"
    and "euclideanDistanceSquared_q bits a c = Inr d1" and "euclideanDistanceSquared_q bits b c = Inr d2"
  shows "d1 < d2 \<longleftrightarrow> sq_euclid a c < sq_euclid b c"
proof -
  have s: "0 < (quant_scale bits)\<^sup>2" using quant_scale_pos [OF assms(1)] by simp
  from assms(2,3) have "d1 = sq_euclid a c / (quant_scale bits)\<^sup>2" "d2 = sq_euclid b c / (quant_scale bits)\<^sup>2"
    by (auto simp: euclideanDistanceSquared_q_scaled euclideanDistanceSquared_Inr_iff
        map_sum_def split: sum.splits)
  with s show ?thesis by (simp add: divide_strict_right_mono_neg divide_less_cancel)
qed

theorem euclideanDistanceSquared_q_order_witness:
  "euclideanDistanceSquared_q 8 [1] [0] = Inr (1 / 65025) \<and>
   euclideanDistanceSquared_q 8 [2] [0] = Inr (4 / 65025) \<and>
   ((1 / 65025 :: real) < 4 / 65025 \<longleftrightarrow> sq_euclid [1] [0] < sq_euclid [2] [0])"
proof -
  have d1: "euclideanDistanceSquared_q 8 [1] [0] = Inr (1 / 65025)"
    by (simp add: euclideanDistanceSquared_q_def quant_scale_def accumulate_loop.simps power2_eq_square)
  have d2: "euclideanDistanceSquared_q 8 [2] [0] = Inr (4 / 65025)"
    by (simp add: euclideanDistanceSquared_q_def quant_scale_def accumulate_loop.simps power2_eq_square)
  show ?thesis
    using euclideanDistanceSquared_q_order [of 8 "[1]" "[0]" "1 / 65025" "[2]" "4 / 65025", OF _ d1 d2] d1 d2
    by simp
qed

end
