(* ===== verification/Quantize.thy ===== *)
theory Quantize
  imports Distance
begin

text \<open>
  The QuantizationCodec: \<^verbatim>\<open>quantizeVector(vector, bitsPerDimension = 8)\<close> of
  \<^verbatim>\<open>src/scripts/vectordb_utils_quantized.js\<close> (lines 70--96). Each component is
  normalised to \<open>[-1, 1]\<close>, scaled by \<open>2 ^ bits - 1\<close>, floored, and written into a
  typed array chosen by \<open>bits\<close>. A typed-array store is the ECMAScript conversion
  ToInt8/ToInt16/ToInt32: the value modulo \<open>2 ^ w\<close> read as two's complement, and
  \<open>NaN\<close> stored as 0. So the arrays are modelled as lists of \<open>w word\<close>, a store is
  \<open>word_of_int\<close>, and a read is \<open>sint\<close>. The lemmas show when no value wraps
  (every width but 8, 16 and 32 bits, where \<open>2 ^ bits - 1\<close> does not fit the signed
  type), that at the default 8 bits the extremes of a vector wrap to \<open>-1\<close> and \<open>1\<close>,
  and that a constant vector (range 0, so \<open>0 / 0 = NaN\<close>) becomes all zeros.
\<close>

section \<open>Typed arrays\<close>

datatype typed_array = Int8Array "8 word list" | Int16Array "16 word list" | Int32Array "32 word list"

text \<open>Reading every element, as \<^verbatim>\<open>arr[i]\<close> does: the two's complement value.\<close>

fun ta_values :: "typed_array \<Rightarrow> int list" where
  "ta_values (Int8Array ws) = map sint ws"
| "ta_values (Int16Array ws) = map sint ws"
| "ta_values (Int32Array ws) = map sint ws"

text \<open>
  A JavaScript number produced by \<^verbatim>\<open>Math.floor\<close>: an integer, or \<open>NaN\<close> (\<open>None\<close>).
  Storing it into a typed array of width \<open>w\<close> is ToInt\<open>w\<close>.
\<close>

definition ta_store :: "int option \<Rightarrow> 'a::len word" where
  "ta_store v = (case v of None \<Rightarrow> 0 | Some n \<Rightarrow> word_of_int n)"

section \<open>quantizeVector\<close>

text \<open>
  \<^verbatim>\<open>Math.max(...vector)\<close> and \<^verbatim>\<open>Math.min(...vector)\<close>. On an empty vector they are
  \<open>-Infinity\<close> and \<open>Infinity\<close>; the loop then runs no iteration and the values are
  never read, so the empty case is left unspecified.
\<close>

fun vec_max :: "real list \<Rightarrow> real" where
  "vec_max (x # xs) = fold max xs x"

fun vec_min :: "real list \<Rightarrow> real" where
  "vec_min (x # xs) = fold min xs x"

text \<open>
  One iteration of the loop: \<^verbatim>\<open>Math.floor((2 * ((vector[i] - minVal) / range_v) - 1) * scale)\<close>.
  When \<open>range = 0\<close> every component equals \<open>minVal\<close> and the quotient is \<open>0 / 0\<close>,
  which is \<open>NaN\<close> in JavaScript.
\<close>

definition quant_component :: "nat \<Rightarrow> real \<Rightarrow> real \<Rightarrow> real \<Rightarrow> int option" where
  "quant_component bitsPerDimension minVal range_v x =
     (if range_v = 0 then None
      else Some \<lfloor>(2 * ((x - minVal) / range_v) - 1) * quant_scale bitsPerDimension\<rfloor>)"

definition quantizeVector :: "nat \<Rightarrow> real list \<Rightarrow> typed_array" where
  "quantizeVector bitsPerDimension vector =
     (let maxVal = vec_max vector;
          minVal = vec_min vector;
          range_v = maxVal - minVal;
          q = map (quant_component bitsPerDimension minVal range_v) vector
      in if bitsPerDimension \<le> 8 then Int8Array (map ta_store q)
         else if bitsPerDimension \<le> 16 then Int16Array (map ta_store q)
         else Int32Array (map ta_store q))"

text \<open>What reading back one stored component gives, by the array type the width selects.\<close>

definition stored_value :: "nat \<Rightarrow> int option \<Rightarrow> int" where
  "stored_value bits v =
     (if bits \<le> 8 then sint (ta_store v :: 8 word)
      else if bits \<le> 16 then sint (ta_store v :: 16 word)
      else sint (ta_store v :: 32 word))"

section \<open>Lemmas\<close>

lemma fold_max_ge: "(x::real) \<le> fold max xs x" and fold_max_ge_elem: "y \<in> set xs \<Longrightarrow> y \<le> fold max xs x"
proof (induction xs arbitrary: x)
  case Nil
  { case 1 show ?case by simp }
  { case 2 then show ?case by simp }
next
  case (Cons z zs)
  { case 1 show ?case using Cons.IH(1) [of "max z x"] by simp }
  { case 2 then show ?case using Cons.IH(1,2) [of "max z x"] by (auto intro: order_trans) }
qed

lemma fold_min_le: "fold min xs x \<le> (x::real)" and fold_min_le_elem: "y \<in> set xs \<Longrightarrow> fold min xs x \<le> y"
proof (induction xs arbitrary: x)
  case Nil
  { case 1 show ?case by simp }
  { case 2 then show ?case by simp }
next
  case (Cons z zs)
  { case 1 show ?case using Cons.IH(1) [of "min z x"] by simp }
  { case 2 then show ?case using Cons.IH(1,2) [of "min z x"] by (auto intro: order_trans) }
qed

lemma vec_bounds: "x \<in> set v \<Longrightarrow> vec_min v \<le> x \<and> x \<le> vec_max v"
  by (cases v) (auto intro: fold_max_ge fold_max_ge_elem fold_min_le fold_min_le_elem)

lemma sint_ta_store_None [simp]: "sint (ta_store None :: 'a::len word) = 0"
  by (simp add: ta_store_def)

text \<open>A value in the signed range of the width is stored and read back unchanged.\<close>

lemma sint_word_of_int_in_range:
  assumes "- (2 ^ (LENGTH('a) - 1)) \<le> n" and "n < 2 ^ (LENGTH('a) - 1)"
  shows "sint (word_of_int n :: 'a::len word) = n"
proof -
  have e: "(2::int) ^ LENGTH('a) = 2 * 2 ^ (LENGTH('a) - 1)"
    by (simp add: power_Suc [symmetric])
  have "(n + 2 ^ (LENGTH('a) - 1)) mod 2 ^ LENGTH('a) = n + 2 ^ (LENGTH('a) - 1)"
    using assms unfolding e by (intro mod_pos_pos_trivial) simp_all
  then show ?thesis by (simp add: int_word_sint)
qed

lemma sint_ta_store: "sint (ta_store v :: 'a::len word) = (case v of None \<Rightarrow> 0 | Some n \<Rightarrow> sint (word_of_int n :: 'a word))"
  by (cases v) (simp_all add: ta_store_def)

lemma ta_values_quantizeVector:
  "ta_values (quantizeVector bits v) =
     map (\<lambda>x. stored_value bits (quant_component bits (vec_min v) (vec_max v - vec_min v) x)) v"
proof (cases "bits \<le> 8")
  case True
  then show ?thesis by (simp add: quantizeVector_def Let_def stored_value_def comp_def)
next
  case False
  then show ?thesis
    by (cases "bits \<le> 16") (simp_all add: quantizeVector_def Let_def stored_value_def comp_def)
qed

lemma length_quantizeVector [simp]: "length (ta_values (quantizeVector bits v)) = length v"
  by (simp add: ta_values_quantizeVector)

text \<open>The normalised and scaled component, before the store, lies in \<open>[-scale, scale]\<close>.\<close>

lemma quant_component_bounds:
  assumes "vec_min v < vec_max v" and "x \<in> set v"
  shows "quant_component bits (vec_min v) (vec_max v - vec_min v) x =
           Some \<lfloor>(2 * ((x - vec_min v) / (vec_max v - vec_min v)) - 1) * quant_scale bits\<rfloor>
         \<and> - quant_scale bits \<le> (2 * ((x - vec_min v) / (vec_max v - vec_min v)) - 1) * quant_scale bits
         \<and> (2 * ((x - vec_min v) / (vec_max v - vec_min v)) - 1) * quant_scale bits \<le> quant_scale bits"
proof -
  let ?r = "vec_max v - vec_min v"
  let ?t = "(x - vec_min v) / ?r"
  have r: "0 < ?r" using assms(1) by simp
  have t0: "0 \<le> ?t" using vec_bounds [OF assms(2)] r by simp
  have t1: "?t \<le> 1" using vec_bounds [OF assms(2)] r by (simp add: divide_le_eq_1)
  have s: "0 \<le> quant_scale bits" by (simp add: quant_scale_def)
  have "-1 \<le> 2 * ?t - 1" using t0 by linarith
  from mult_right_mono [OF this s] have lo: "- quant_scale bits \<le> (2 * ?t - 1) * quant_scale bits"
    by simp
  have "2 * ?t - 1 \<le> 1" using t1 by linarith
  from mult_right_mono [OF this s] have hi: "(2 * ?t - 1) * quant_scale bits \<le> quant_scale bits"
    by simp
  have "quant_component bits (vec_min v) ?r x = Some \<lfloor>(2 * ?t - 1) * quant_scale bits\<rfloor>"
    using r by (simp add: quant_component_def)
  with lo hi show ?thesis by blast
qed

lemma fold_max_in: "fold max xs (x::real) \<in> insert x (set xs)"
  by (induction xs arbitrary: x) (auto simp: max_def)

lemma fold_min_in: "fold min xs (x::real) \<in> insert x (set xs)"
  by (induction xs arbitrary: x) (auto simp: min_def)

lemma vec_max_min_in: "v \<noteq> [] \<Longrightarrow> vec_max v \<in> set v \<and> vec_min v \<in> set v"
  by (cases v) (use fold_max_in fold_min_in in auto)

lemma quant_scale_of_int: "quant_scale bits = of_int (2 ^ bits - 1)"
  by (simp add: quant_scale_def)

lemma floor_within_scale:
  assumes "- quant_scale bits \<le> y" and "y \<le> quant_scale bits"
  shows "\<bar>\<lfloor>y\<rfloor>\<bar> \<le> 2 ^ bits - 1"
proof -
  have "- (2 ^ bits - 1) \<le> \<lfloor>y\<rfloor>" using assms(1)
    by (simp add: le_floor_iff quant_scale_of_int)
  moreover have "\<lfloor>y\<rfloor> \<le> \<lfloor>quant_scale bits\<rfloor>" using assms(2) by (rule floor_mono)
  then have "\<lfloor>y\<rfloor> \<le> 2 ^ bits - 1" by (simp add: quant_scale_of_int)
  ultimately show ?thesis by linarith
qed

lemma sint_word_of_int_scaled:
  assumes "bits < LENGTH('a)" and "\<bar>n\<bar> \<le> 2 ^ bits - 1"
  shows "sint (word_of_int n :: 'a::len word) = n"
proof -
  have "(2::int) ^ bits \<le> 2 ^ (LENGTH('a) - 1)" using assms(1) by (intro power_increasing) simp_all
  with assms(2) show ?thesis by (intro sint_word_of_int_in_range) linarith+
qed

lemma stored_value_no_wrap:
  assumes "bits < 32" and "bits \<noteq> 8" and "bits \<noteq> 16" and "\<bar>n\<bar> \<le> 2 ^ bits - 1"
  shows "stored_value bits (Some n) = n"
proof -
  consider "bits < 8" | "8 < bits" "bits < 16" | "16 < bits" using assms(1-3) by linarith
  then show ?thesis
  proof cases
    case 1
    then show ?thesis using sint_word_of_int_scaled [where 'a = 8, of bits n] assms(4)
      by (simp add: stored_value_def ta_store_def)
  next
    case 2
    then show ?thesis using sint_word_of_int_scaled [where 'a = 16, of bits n] assms(4)
      by (simp add: stored_value_def ta_store_def)
  next
    case 3
    then show ?thesis using sint_word_of_int_scaled [where 'a = 32, of bits n] assms(1,4)
      by (simp add: stored_value_def ta_store_def)
  qed
qed

lemma stored_component_no_wrap:
  assumes "bits < 32" and "bits \<noteq> 8" and "bits \<noteq> 16" and "vec_min v < vec_max v" and "x \<in> set v"
  shows "stored_value bits (quant_component bits (vec_min v) (vec_max v - vec_min v) x) =
           \<lfloor>(2 * ((x - vec_min v) / (vec_max v - vec_min v)) - 1) * quant_scale bits\<rfloor>
         \<and> \<bar>\<lfloor>(2 * ((x - vec_min v) / (vec_max v - vec_min v)) - 1) * quant_scale bits\<rfloor>\<bar> \<le> 2 ^ bits - 1"
  using quant_component_bounds [OF assms(4,5), of bits] floor_within_scale
    stored_value_no_wrap [OF assms(1-3)] by auto

lemma nth_quantizeVector_no_wrap:
  assumes "bits < 32" and "bits \<noteq> 8" and "bits \<noteq> 16" and "vec_min v < vec_max v" and "i < length v"
  shows "ta_values (quantizeVector bits v) ! i =
           \<lfloor>(2 * ((v ! i - vec_min v) / (vec_max v - vec_min v)) - 1) * quant_scale bits\<rfloor>"
  using stored_component_no_wrap [OF assms(1-4) nth_mem [OF assms(5)]] assms(5)
  by (simp add: ta_values_quantizeVector)

text \<open>
  C6: for every width except 8, 16 and 32 bits no stored value wraps: the array holds
  exactly the floored, scaled components, each within \<open>\<plusminus>(2 ^ bits - 1)\<close>.
\<close>

theorem quantizeVector_no_wrap:
  assumes "bits < 32" and "bits \<noteq> 8" and "bits \<noteq> 16" and "vec_min v < vec_max v"
  shows "ta_values (quantizeVector bits v) =
           map (\<lambda>x. \<lfloor>(2 * ((x - vec_min v) / (vec_max v - vec_min v)) - 1) * quant_scale bits\<rfloor>) v
         \<and> list_all (\<lambda>n. \<bar>n\<bar> \<le> 2 ^ bits - 1) (ta_values (quantizeVector bits v))"
  using stored_component_no_wrap [OF assms(1-4)]
  by (auto simp: ta_values_quantizeVector list_all_iff)

theorem quantizeVector_no_wrap_witness:
  "ta_values (quantizeVector 4 [0, 1]) = [-15, 15]"
proof -
  have "vec_min [0, 1] < vec_max [0, (1::real)]" by simp
  from quantizeVector_no_wrap [of 4 "[0, 1]", OF _ _ _ this]
  show ?thesis by (simp add: quant_scale_def)
qed

text \<open>
  C19: for every width from 1 to 31 bits except 8 and 16, a component read back and
  dequantised as \<^verbatim>\<open>euclideanDistanceSquared\<close> does (\<^verbatim>\<open>arr[i] / scale\<close>) is within
  \<open>1 / (2 ^ bits - 1)\<close> of the normalised value \<open>2 (x - min) / range - 1\<close>. So the
  quantization error shrinks as the width grows, as the spec says, at the widths that do
  not wrap.
\<close>

theorem quantizeVector_error_bound:
  assumes "0 < bits" and "bits < 32" and "bits \<noteq> 8" and "bits \<noteq> 16"
    and "vec_min v < vec_max v" and "i < length v"
  shows "\<bar>ta_values (quantizeVector bits v) ! i / quant_scale bits
           - (2 * ((v ! i - vec_min v) / (vec_max v - vec_min v)) - 1)\<bar> < 1 / quant_scale bits"
proof -
  let ?y = "(2 * ((v ! i - vec_min v) / (vec_max v - vec_min v)) - 1) * quant_scale bits"
  have s: "0 < quant_scale bits" using assms(1) by (rule quant_scale_pos)
  have "ta_values (quantizeVector bits v) ! i = \<lfloor>?y\<rfloor>"
    using nth_quantizeVector_no_wrap [OF assms(2-6)] .
  moreover have "\<bar>of_int \<lfloor>?y\<rfloor> - ?y\<bar> < 1" by linarith
  ultimately show ?thesis
    using s by (simp add: abs_less_iff field_simps)
qed

theorem quantizeVector_error_bound_witness:
  "ta_values (quantizeVector 4 [0, 1, 4]) ! 1 = -8 \<and>
   \<bar>ta_values (quantizeVector 4 [0, 1, 4]) ! 1 / quant_scale 4 - (2 * ((1 - 0) / (4 - 0)) - 1)\<bar> < 1 / quant_scale 4"
proof -
  have m: "vec_min [0, 1, 4] = (0::real)" "vec_max [0, 1, 4] = (4::real)" by simp_all
  have v: "ta_values (quantizeVector 4 [0, 1, 4]) ! 1 = -8"
    using nth_quantizeVector_no_wrap [of 4 "[0, 1, 4]" 1] by (simp add: quant_scale_def)
  show ?thesis
    using quantizeVector_error_bound [of 4 "[0, 1, 4]" 1] m v by simp
qed

text \<open>
  C18: at the default 8 bits the scale \<open>255\<close> does not fit \<^verbatim>\<open>Int8Array\<close>: the largest
  component of every non-constant vector is stored as \<open>-1\<close> and the smallest as \<open>1\<close>,
  reversing their order.
\<close>

theorem quantizeVector_8bit_wraps:
  assumes "vec_min v < vec_max v" and "i < length v" and "j < length v"
    and "v ! i = vec_max v" and "v ! j = vec_min v"
  shows "ta_values (quantizeVector 8 v) ! i = -1 \<and> ta_values (quantizeVector 8 v) ! j = 1"
proof -
  have r: "vec_max v - vec_min v \<noteq> 0" using assms(1) by simp
  have "quant_component 8 (vec_min v) (vec_max v - vec_min v) (vec_max v) = Some 255"
    using r by (simp add: quant_component_def quant_scale_def)
  moreover have "quant_component 8 (vec_min v) (vec_max v - vec_min v) (vec_min v) = Some (-255)"
    using r by (simp add: quant_component_def quant_scale_def)
  ultimately show ?thesis using assms(2-5)
    by (simp add: ta_values_quantizeVector stored_value_def ta_store_def)
qed

theorem quantizeVector_8bit_wraps_witness:
  "ta_values (quantizeVector 8 [0, 1]) ! 1 = -1 \<and> ta_values (quantizeVector 8 [0, 1]) ! 0 = 1"
proof -
  have h: "vec_min [0, 1] < vec_max [0, (1::real)]" "(1::nat) < length [0, (1::real)]"
    "(0::nat) < length [0, (1::real)]" "[0, 1] ! 1 = vec_max [0, (1::real)]" "[0, 1] ! 0 = vec_min [0, (1::real)]"
    by simp_all
  from quantizeVector_8bit_wraps [OF h] show ?thesis .
qed

text \<open>
  C31: a constant vector (range 0) does not fail: \<open>0 / 0\<close> is \<open>NaN\<close>, and a typed array
  stores \<open>NaN\<close> as 0, so every component is 0 at every width.
\<close>

theorem quantizeVector_constant:
  "list_all (\<lambda>x. x = c) v \<Longrightarrow> ta_values (quantizeVector bits v) = replicate (length v) 0"
proof (cases "v = []")
  case False
  assume c: "list_all (\<lambda>x. x = c) v"
  have "vec_max v = c" "vec_min v = c"
    using c vec_max_min_in [OF False] by (simp_all add: list_all_iff)
  then have "vec_max v - vec_min v = 0" by simp
  with c show ?thesis
    by (auto simp: ta_values_quantizeVector quant_component_def stored_value_def map_replicate_const
        intro!: replicate_eqI)
qed (simp add: ta_values_quantizeVector)

theorem quantizeVector_constant_witness:
  "ta_values (quantizeVector 8 [3, 3, 3]) = [0, 0, 0]"
  using quantizeVector_constant [of 3 "[3, 3, 3]" 8] by (simp add: numeral_3_eq_3)

lemma sint_store_list:
  "list_all (\<lambda>n. - (2 ^ (LENGTH('a) - 1)) \<le> n \<and> n < 2 ^ (LENGTH('a) - 1)) xs \<Longrightarrow>
     map sint (map (\<lambda>n. ta_store (Some n) :: 'a::len word) xs) = xs"
  by (induction xs) (simp_all add: ta_store_def sint_word_of_int_in_range)

lemma store_sint_list: "map ((\<lambda>n. ta_store (Some n)) \<circ> sint) ws = (ws :: 'a::len word list)"
  by (induction ws) (simp_all add: ta_store_def)

end
