(* ===== verification/GraphStore.thy ===== *)
theory GraphStore
  imports Prelude
begin

text \<open>
  The GraphStore capability the search calls, and the DuckDB queries that implement it
  in \<^verbatim>\<open>searchWithSql\<close>. The interface is the record \<open>graph_store\<close>: node count,
  random entry row, neighbour query and document lookup. The search theories state their
  lemmas for any store satisfying \<open>store_contract\<close>. The SQL adapter \<open>sql_store\<close> models
  the tables as lists of rows and the queries as filters and joins over them, and
  discharges the contract (\<open>sql_store_contract\<close>). The neighbour query receives the SQL
  literal lists as the code builds them: numbers written out by
  \<^verbatim>\<open>Array.prototype.join(",")\<close>. A node id matches a list when it equals one of its
  numbers.
\<close>

section \<open>The interface\<close>

text \<open>
  \<^item> \<open>count_nodes\<close>: \<^verbatim>\<open>SELECT COUNT(node_id) FROM nodes.parquet\<close>;
  \<^item> \<open>random_node r\<close>: \<^verbatim>\<open>... ORDER BY RANDOM() LIMIT 1\<close> under the random draw \<open>r\<close>;
  \<^item> \<open>neighbors srcs layer excl\<close>: the \<^verbatim>\<open>filtered_edges\<close> table built from
    \<^verbatim>\<open>source_node_id IN (srcs) AND layer = layer AND target_node_id NOT IN (excl)\<close>,
    joined with the node table;
  \<^item> \<open>fetch_text id\<close>: \<^verbatim>\<open>SELECT text FROM docs.parquet OFFSET id LIMIT 1\<close>, whose
    \<^verbatim>\<open>[0]\<close> is \<^verbatim>\<open>undefined\<close> (\<open>None\<close>) when the offset is past the end.
\<close>

record 'v graph_store =
  count_nodes :: nat
  random_node :: "nat \<Rightarrow> (int \<times> 'v) list"
  neighbors :: "real list \<Rightarrow> nat \<Rightarrow> real list \<Rightarrow> (int \<times> 'v) list"
  fetch_text :: "int \<Rightarrow> string option"

text \<open>
  What the search needs of a store over the node rows \<open>ns\<close>: the count is the number of
  rows, the entry query returns at most one row of the table, and every neighbour row is
  a row of the table whose id is not among the excluded numbers.
\<close>

definition store_contract :: "(int \<times> 'v) list \<Rightarrow> 'v graph_store \<Rightarrow> bool" where
  "store_contract ns g \<longleftrightarrow>
     count_nodes g = length ns \<and>
     (\<forall>r. length (random_node g r) \<le> 1 \<and> set (random_node g r) \<subseteq> set ns) \<and>
     (\<forall>srcs layer excl. set (neighbors g srcs layer excl) \<subseteq> set ns \<and>
        (\<forall>row \<in> set (neighbors g srcs layer excl). real_of_int (fst row) \<notin> set excl))"

section \<open>The SQL adapter\<close>

text \<open>
  The parquet tables: \<^verbatim>\<open>nodes\<close> rows \<open>(node_id, data)\<close>, \<^verbatim>\<open>edges\<close> rows
  \<open>(source_node_id, target_node_id, layer)\<close>, \<^verbatim>\<open>docs\<close> rows \<open>text\<close>.
\<close>

record 'v tables =
  nodes_tbl :: "(int \<times> 'v) list"
  edges_tbl :: "(int \<times> int \<times> int) list"
  docs_tbl :: "string list"

text \<open>\<^verbatim>\<open>CREATE TEMP TABLE filtered_edges AS SELECT * FROM edges.parquet WHERE ...\<close>\<close>

definition filtered_edges :: "(int \<times> int \<times> int) list \<Rightarrow> real list \<Rightarrow> nat \<Rightarrow> real list \<Rightarrow> (int \<times> int \<times> int) list" where
  "filtered_edges es srcs layer excl =
     filter (\<lambda>(s, t, l). real_of_int s \<in> set srcs \<and> l = int layer \<and> real_of_int t \<notin> set excl) es"

text \<open>
  \<^verbatim>\<open>SELECT e.target_node_id, n.data FROM nodes n INNER JOIN filtered_edges e ON n.node_id = e.target_node_id\<close>.
  SQL fixes no row order; the model lists the rows edge by edge. The lemmas of the
  search are stated for any store satisfying the contract, so they hold for every order.
\<close>

definition join_nodes :: "(int \<times> 'v) list \<Rightarrow> (int \<times> int \<times> int) list \<Rightarrow> (int \<times> 'v) list" where
  "join_nodes ns fe = concat (map (\<lambda>(s, t, l). filter (\<lambda>row. fst row = t) ns) fe)"

definition sql_store :: "'v tables \<Rightarrow> 'v graph_store" where
  "sql_store t =
     \<lparr>count_nodes = length (nodes_tbl t),
      random_node = (\<lambda>r. if nodes_tbl t = [] then [] else [nodes_tbl t ! (r mod length (nodes_tbl t))]),
      neighbors = (\<lambda>srcs layer excl. join_nodes (nodes_tbl t) (filtered_edges (edges_tbl t) srcs layer excl)),
      fetch_text = (\<lambda>i. if 0 \<le> i \<and> nat i < length (docs_tbl t) then Some (docs_tbl t ! nat i) else None)\<rparr>"

section \<open>The adapter satisfies the contract\<close>

lemma set_join_nodes:
  "set (join_nodes ns fe) = {row \<in> set ns. \<exists>s l. (s, fst row, l) \<in> set fe}"
  by (force simp: join_nodes_def)

lemma sql_store_contract: "store_contract (nodes_tbl t) (sql_store t)"
  by (auto simp: store_contract_def sql_store_def set_join_nodes filtered_edges_def)

end
