(* ===== verification/Search.thy ===== *)
theory Search
  imports Quantize GraphStore
begin

text \<open>
  The AnnSearchEngine: the body of \<^verbatim>\<open>searchWithSql\<close> in
  \<^verbatim>\<open>src/scripts/vectordb_utils.js\<close> (lines 63--189) and its quantized copy in
  \<^verbatim>\<open>src/scripts/vectordb_utils_quantized.js\<close> (lines 99--233). They differ only in
  the distance. So the engine is parameterised by \<open>dq\<close>, the distance of a node's data to
  the query, and by the \<open>graph_store\<close> it queries.
  \<^item> The per-search \<^verbatim>\<open>cache\<close> object is an association list keyed by the string a
    JavaScript property key becomes: \<open>KNum n\<close> for a node id, \<open>KPair n d\<close> for a
    candidate pair \<^verbatim>\<open>[n, d]\<close> (whose string is \<^verbatim>\<open>"n,d"\<close>).
  \<^item> One \<^verbatim>\<open>while (improved)\<close> iteration is \<open>expand_round\<close>; the loop is
    \<open>layer_search\<close>, a \<^theory_text>\<open>partial_function (option)\<close>, whose termination under
    the store contract is a theorem of \<open>Search_Props\<close>.
  \<^item> The \<^verbatim>\<open>for (layer = maxLayer; layer >= 0; layer--)\<close> loop is \<open>descend\<close>.
\<close>

section \<open>The cache\<close>

datatype js_key = KNum int | KPair int real

text \<open>\<^verbatim>\<open>cache[neighborId] = { data, distance: dist }\<close>\<close>

record 'v cache_entry =
  data :: 'v
  distance :: real

type_synonym 'v cache = "(js_key \<times> 'v cache_entry) list"

text \<open>
  \<^verbatim>\<open>cache[nodeId][layer]\<close>: an entry is the object \<^verbatim>\<open>{data, distance}\<close>, which has no
  numeric property, so the read is \<^verbatim>\<open>undefined\<close> at every layer.
\<close>

definition entry_has_layer :: "'v cache_entry \<Rightarrow> nat \<Rightarrow> bool" where
  "entry_has_layer e layer = False"

text \<open>\<^verbatim>\<open>!cache[nodeId] || !cache[nodeId][layer]\<close>\<close>

definition not_expanded :: "'v cache \<Rightarrow> js_key \<Rightarrow> nat \<Rightarrow> bool" where
  "not_expanded c k layer = (case map_of c k of None \<Rightarrow> True | Some e \<Rightarrow> \<not> entry_has_layer e layer)"

text \<open>
  The numbers a key contributes to a \<^verbatim>\<open>join(",")\<close>-built SQL list: a node id is one
  number; a candidate \<^verbatim>\<open>[n, d]\<close> prints as \<^verbatim>\<open>n,d\<close>, two numbers.
\<close>

fun key_literals :: "js_key \<Rightarrow> real list" where
  "key_literals (KNum n) = [real_of_int n]"
| "key_literals (KPair n d) = [real_of_int n, d]"

definition pair_key :: "int \<times> real \<Rightarrow> js_key" where
  "pair_key c = KPair (fst c) (snd c)"

text \<open>
  Reuse the cached distance of a neighbour, or compute it and cache it
  (\<^verbatim>\<open>if (cache[neighborId] && cache[neighborId].data) ... else ...\<close>).
\<close>

definition cached_distance :: "('v \<Rightarrow> real result) \<Rightarrow> 'v cache \<Rightarrow> int \<Rightarrow> 'v \<Rightarrow> (real \<times> 'v cache) result" where
  "cached_distance dq c nid d =
     (case map_of c (KNum nid) of
        Some e \<Rightarrow> Inr (distance e, c)
      | None \<Rightarrow> bind_result (dq d) (\<lambda>distv. Inr (distv, AList.update (KNum nid) \<lparr>data = d, distance = distv\<rparr> c)))"

section \<open>One expansion round\<close>

record 'v search_state =
  currentBest :: "(int \<times> real) list"
  cache :: "'v cache"

record 'v round_state = "'v search_state" +
  newCandidates :: "int set"
  improved :: bool

text \<open>
  \<^verbatim>\<open>currentBest.length < ef || dist < currentBest[currentBest.length - 1][1]\<close>: the
  comparison is with the last element of the list, which after a \<^verbatim>\<open>push\<close> is the
  neighbour pushed last. Reading \<^verbatim>\<open>[1]\<close> of the element of an empty list is a
  \<^verbatim>\<open>TypeError\<close>.
\<close>

definition admits :: "nat \<Rightarrow> (int \<times> real) list \<Rightarrow> real \<Rightarrow> bool result" where
  "admits ef cb distv =
     (if length cb < ef then Inr True
      else if cb = [] then Inl UndefinedRead
      else Inr (distv < snd (last cb)))"

text \<open>\<^verbatim>\<open>for (const [neighborId_, node_data_] of neighbors) { ... }\<close>\<close>

fun visit_neighbors :: "('v \<Rightarrow> real result) \<Rightarrow> nat \<Rightarrow> (int \<times> 'v) list \<Rightarrow> 'v round_state \<Rightarrow> 'v round_state result" where
  "visit_neighbors dq ef [] s = Inr s"
| "visit_neighbors dq ef ((nid, d) # ns) s =
     (if nid \<in> newCandidates s then visit_neighbors dq ef ns s
      else bind_result (cached_distance dq (cache s) nid d) (\<lambda>(distv, c').
        bind_result (admits ef (currentBest s) distv) (\<lambda>adm.
          visit_neighbors dq ef ns
            (if adm then s\<lparr>cache := c', currentBest := currentBest s @ [(nid, distv)],
                          newCandidates := insert nid (newCandidates s), improved := True\<rparr>
             else s\<lparr>cache := c'\<rparr>))))"

text \<open>
  The body of \<^verbatim>\<open>while (improved)\<close>: the candidates not yet expanded at this layer,
  the two SQL literal lists, the neighbour query, the visit, and the stable sort and
  truncation to \<open>ef\<close>. Both \<^verbatim>\<open>continue\<close>s leave the list unsorted and end the loop.
  The result's flag is the new value of \<^verbatim>\<open>improved\<close>.
\<close>

definition expand_round :: "'v graph_store \<Rightarrow> ('v \<Rightarrow> real result) \<Rightarrow> nat \<Rightarrow> nat \<Rightarrow> 'v search_state \<Rightarrow> (bool \<times> 'v search_state) result" where
  "expand_round g dq ef layer st =
     (let candidates = currentBest st;
          filteredCandidates = filter (\<lambda>c. not_expanded (cache st) (pair_key c) layer) candidates
      in if filteredCandidates = [] then Inr (False, st)
         else
           (let sqlSafeFilteredCandidates = concat (map (key_literals \<circ> pair_key) filteredCandidates);
                sqlSafeCandidates = concat (map (key_literals \<circ> pair_key) candidates)
                                    @ concat (map (key_literals \<circ> fst) (cache st));
                nbrs = neighbors g sqlSafeFilteredCandidates layer sqlSafeCandidates
            in if nbrs = [] then Inr (False, st)
               else bind_result
                      (visit_neighbors dq ef nbrs
                         \<lparr>currentBest = candidates, cache = cache st, newCandidates = {}, improved = False\<rparr>)
                      (\<lambda>s. Inr (improved s,
                                \<lparr>currentBest = take ef (sort_key snd (currentBest s)), cache = cache s\<rparr>))))"

section \<open>The loops\<close>

partial_function (option) layer_search ::
  "'v graph_store \<Rightarrow> ('v \<Rightarrow> real result) \<Rightarrow> nat \<Rightarrow> nat \<Rightarrow> 'v search_state \<Rightarrow> 'v search_state outcome" where
  "layer_search g dq ef layer st =
     (case expand_round g dq ef layer st of
        Inl e \<Rightarrow> Some (Inl e)
      | Inr (imp, st') \<Rightarrow> if imp then layer_search g dq ef layer st' else Some (Inr st'))"

fun descend :: "'v graph_store \<Rightarrow> ('v \<Rightarrow> real result) \<Rightarrow> nat \<Rightarrow> nat \<Rightarrow> 'v search_state \<Rightarrow> 'v search_state outcome" where
  "descend g dq ef 0 st = layer_search g dq ef 0 st"
| "descend g dq ef (Suc l) st = bind_outcome (layer_search g dq ef (Suc l) st) (descend g dq ef l)"

text \<open>\<^verbatim>\<open>Math.floor(Math.log2(count))\<close> for a positive count.\<close>

fun floor_log2 :: "nat \<Rightarrow> nat" where
  "floor_log2 n = (if n < 2 then 0 else Suc (floor_log2 (n div 2)))"

declare floor_log2.simps [simp del]

section \<open>The search\<close>

text \<open>The entry row, with its distance (\<^verbatim>\<open>currentBest = ... .map(([nId, data]) => [nId[1], dist])\<close>).\<close>

definition init_best :: "'v graph_store \<Rightarrow> ('v \<Rightarrow> real result) \<Rightarrow> nat \<Rightarrow> (int \<times> real) list result" where
  "init_best g dq r = map_result (\<lambda>(nid, d). bind_result (dq d) (\<lambda>distv. Inr (nid, distv))) (random_node g r)"

definition search_best :: "'v graph_store \<Rightarrow> ('v \<Rightarrow> real result) \<Rightarrow> nat \<Rightarrow> nat \<Rightarrow> (int \<times> real) list outcome" where
  "search_best g dq ef r =
     (let count = count_nodes g;
          maxLayer = (if 0 < count then floor_log2 count else 0)
      in case init_best g dq r of
           Inl e \<Rightarrow> Some (Inl e)
         | Inr cb \<Rightarrow> bind_outcome (descend g dq ef maxLayer \<lparr>currentBest = cb, cache = []\<rparr>)
                                (\<lambda>st. Some (Inr (currentBest st))))"

text \<open>\<^verbatim>\<open>const ids = currentBest.slice(0, k).map(([nodeId, _]) => nodeId)\<close>\<close>

definition search_ids :: "'v graph_store \<Rightarrow> ('v \<Rightarrow> real result) \<Rightarrow> nat \<Rightarrow> nat \<Rightarrow> nat \<Rightarrow> int list outcome" where
  "search_ids g dq k ef r = bind_outcome (search_best g dq ef r) (\<lambda>cb. Some (Inr (map fst (take k cb))))"

text \<open>The plain variant: float node vectors, \<^verbatim>\<open>euclideanDistanceSquared(data, queryData)\<close>.\<close>

definition searchWithSql :: "real list graph_store \<Rightarrow> real list \<Rightarrow> nat \<Rightarrow> nat \<Rightarrow> nat \<Rightarrow> string option list outcome" where
  "searchWithSql g queryData k ef r =
     bind_outcome (search_ids g (\<lambda>data. euclideanDistanceSquared data queryData) k ef r)
       (\<lambda>ids. Some (Inr (map (fetch_text g) ids)))"

text \<open>
  The quantized variant: node vectors are typed arrays, the query is quantized once at
  8 bits (\<^verbatim>\<open>quantizeVector(queryData)\<close>), and the distance is the dequantising one
  at its default 8 bits.
\<close>

definition searchWithSql_q :: "typed_array graph_store \<Rightarrow> real list \<Rightarrow> nat \<Rightarrow> nat \<Rightarrow> nat \<Rightarrow> string option list outcome" where
  "searchWithSql_q g queryData k ef r =
     (let quantizedQueryData = quantizeVector 8 queryData
      in bind_outcome
           (search_ids g (\<lambda>data. euclideanDistanceSquared_q 8 (map real_of_int (ta_values data))
                                    (map real_of_int (ta_values quantizedQueryData))) k ef r)
           (\<lambda>ids. Some (Inr (map (fetch_text g) ids))))"

end
