(* ===== verification/Search_Props.thy ===== *)
theory Search_Props
  imports Search
begin

text \<open>
  The correctness of the AnnSearchEngine, for every store satisfying
  \<open>store_contract\<close>. The invariants are \<open>round_inv\<close> (one visit: the pushed
  candidates are new, distinct and honest) and \<open>search_inv\<close> (between rounds: unique
  ids, ascending distances, at most \<open>max 1 ef\<close> entries, and distances and cache entries
  that are distances of table rows). Termination of \<^verbatim>\<open>while (improved)\<close> is an
  induction on the number of node ids not yet cached, which every improving round
  decreases. The section "Properties of the search" states the user-facing theorems.
\<close>

section \<open>Invariants\<close>

definition cand_ok :: "(int \<times> 'v) list \<Rightarrow> ('v \<Rightarrow> real result) \<Rightarrow> int \<times> real \<Rightarrow> bool" where
  "cand_ok ns dq p \<longleftrightarrow> (\<exists>v. (fst p, v) \<in> set ns \<and> dq v = Inr (snd p))"

definition entry_ok :: "(int \<times> 'v) list \<Rightarrow> ('v \<Rightarrow> real result) \<Rightarrow> js_key \<times> 'v cache_entry \<Rightarrow> bool" where
  "entry_ok ns dq ke \<longleftrightarrow> (\<exists>i v. fst ke = KNum i \<and> (i, v) \<in> set ns \<and> dq v = Inr (distance (snd ke)))"

definition round_inv ::
  "(int \<times> 'v) list \<Rightarrow> ('v \<Rightarrow> real result) \<Rightarrow> real set \<Rightarrow> (int \<times> real) list \<Rightarrow> 'v round_state \<Rightarrow> bool" where
  "round_inv ns dq X old s \<longleftrightarrow>
     (\<exists>p. currentBest s = old @ p \<and> distinct (map fst p) \<and> set (map fst p) = newCandidates s \<and>
          list_all (cand_ok ns dq) p \<and> (improved s \<longleftrightarrow> p \<noteq> [])) \<and>
     (\<forall>i \<in> newCandidates s. real_of_int i \<notin> X \<and> KNum i \<in> fst ` set (cache s)) \<and>
     list_all (entry_ok ns dq) (cache s)"

definition search_inv :: "(int \<times> 'v) list \<Rightarrow> ('v \<Rightarrow> real result) \<Rightarrow> nat \<Rightarrow> 'v search_state \<Rightarrow> bool" where
  "search_inv ns dq ef st \<longleftrightarrow>
     distinct (map fst (currentBest st)) \<and> sorted (map snd (currentBest st)) \<and>
     length (currentBest st) \<le> max 1 ef \<and>
     list_all (cand_ok ns dq) (currentBest st) \<and> list_all (entry_ok ns dq) (cache st)"

section \<open>Visiting the neighbours\<close>

lemma cached_distance_Inr:
  assumes "cached_distance dq c nid d = Inr (dv, c')" and "(nid, d) \<in> set ns"
    and "list_all (entry_ok ns dq) c"
  shows "cand_ok ns dq (nid, dv) \<and> list_all (entry_ok ns dq) c' \<and>
         fst ` set c' = insert (KNum nid) (fst ` set c)"
proof (cases "map_of c (KNum nid)")
  case None
  with assms(1) have "dq d = Inr dv" and c': "c' = AList.update (KNum nid) \<lparr>data = d, distance = dv\<rparr> c"
    by (auto simp: cached_distance_def bind_result_Inr_iff)
  moreover have sub: "set c' \<subseteq> insert (KNum nid, \<lparr>data = d, distance = dv\<rparr>) (set c)"
    unfolding c' by (rule set_update_subset)
  moreover have "entry_ok ns dq (KNum nid, \<lparr>data = d, distance = dv\<rparr>)"
    using \<open>dq d = Inr dv\<close> assms(2) by (auto simp: entry_ok_def)
  ultimately have "list_all (entry_ok ns dq) c'"
    using assms(3) unfolding list_all_iff by blast
  with \<open>dq d = Inr dv\<close> c' assms(2) show ?thesis
    by (auto simp: cand_ok_def AList.dom_update)
next
  case (Some e)
  with assms(1) have "dv = distance e" "c' = c" by (simp_all add: cached_distance_def)
  moreover have "(KNum nid, e) \<in> set c" using Some by (rule map_of_SomeD)
  moreover from this assms(3) have "entry_ok ns dq (KNum nid, e)" by (simp add: list_all_iff)
  ultimately show ?thesis using assms(3)
    by (auto simp: cand_ok_def entry_ok_def intro: rev_image_eqI)
qed

lemma visit_step_inv:
  assumes inv: "round_inv ns dq X old s" and fresh: "nid \<notin> newCandidates s"
    and row: "(nid, d) \<in> set ns" and ex: "real_of_int nid \<notin> X"
    and cd: "cached_distance dq (cache s) nid d = Inr (dv, c')"
  shows "round_inv ns dq X old
           (if adm then s\<lparr>cache := c', currentBest := currentBest s @ [(nid, dv)],
                         newCandidates := insert nid (newCandidates s), improved := True\<rparr>
            else s\<lparr>cache := c'\<rparr>)
         \<and> fst ` set (cache s) \<subseteq> fst ` set c'"
proof -
  from inv obtain p where p: "currentBest s = old @ p" "distinct (map fst p)" "set (map fst p) = newCandidates s"
      "list_all (cand_ok ns dq) p" "improved s \<longleftrightarrow> p \<noteq> []"
    and nc: "\<forall>i \<in> newCandidates s. real_of_int i \<notin> X \<and> KNum i \<in> fst ` set (cache s)"
    and ce: "list_all (entry_ok ns dq) (cache s)"
    unfolding round_inv_def by blast
  from cached_distance_Inr [OF cd row ce]
  have ok: "cand_ok ns dq (nid, dv)" and ce': "list_all (entry_ok ns dq) c'"
    and keys: "fst ` set c' = insert (KNum nid) (fst ` set (cache s))" by blast+
  show ?thesis
  proof (cases adm)
    case True
    have "distinct (map fst (p @ [(nid, dv)]))" using p(2,3) fresh by auto
    with p ok nc ce' keys ex True show ?thesis
      unfolding round_inv_def by (intro conjI exI [of _ "p @ [(nid, dv)]"]) auto
  next
    case False
    with p nc ce' keys show ?thesis
      unfolding round_inv_def by (intro conjI exI [of _ p]) auto
  qed
qed

lemma visit_neighbors_inv:
  assumes "visit_neighbors dq ef nbrs s = Inr s'"
    and "\<forall>row \<in> set nbrs. row \<in> set ns \<and> real_of_int (fst row) \<notin> X"
    and "round_inv ns dq X old s"
  shows "round_inv ns dq X old s' \<and> fst ` set (cache s) \<subseteq> fst ` set (cache s')"
  using assms
proof (induction dq ef nbrs s rule: visit_neighbors.induct)
  case (1 dq ef s)
  then show ?case by simp
next
  case (2 dq ef nid d rest s)
  show ?case
  proof (cases "nid \<in> newCandidates s")
    case True
    with "2.prems" show ?thesis by (intro "2.IH"(1)) auto
  next
    case False
    with "2.prems"(1) obtain dv c' adm where
      cd: "cached_distance dq (cache s) nid d = Inr (dv, c')" and
      ad: "admits ef (currentBest s) dv = Inr adm" and
      rec: "visit_neighbors dq ef rest
              (if adm then s\<lparr>cache := c', currentBest := currentBest s @ [(nid, dv)],
                             newCandidates := insert nid (newCandidates s), improved := True\<rparr>
               else s\<lparr>cache := c'\<rparr>) = Inr s'"
      by (auto simp: bind_result_Inr_iff split: prod.splits)
    have step: "round_inv ns dq X old
           (if adm then s\<lparr>cache := c', currentBest := currentBest s @ [(nid, dv)],
                         newCandidates := insert nid (newCandidates s), improved := True\<rparr>
            else s\<lparr>cache := c'\<rparr>) \<and> fst ` set (cache s) \<subseteq> fst ` set c'"
      using visit_step_inv [OF "2.prems"(3) False _ _ cd] "2.prems"(2) by simp
    have "round_inv ns dq X old s' \<and>
          fst ` set (cache (if adm then s\<lparr>cache := c', currentBest := currentBest s @ [(nid, dv)],
                         newCandidates := insert nid (newCandidates s), improved := True\<rparr>
            else s\<lparr>cache := c'\<rparr>)) \<subseteq> fst ` set (cache s')"
      using "2.IH"(2) [OF False rec] "2.prems"(2) step by auto
    then have "round_inv ns dq X old s'" "fst ` set c' \<subseteq> fst ` set (cache s')"
      by (simp_all split: if_splits)
    with step show ?thesis by blast
  qed
qed

lemma cached_distance_Inl: "cached_distance dq c nid d = Inl e \<Longrightarrow> dq d = Inl e"
  by (auto simp: cached_distance_def bind_result_Inl_iff split: option.splits)

lemma cached_distance_defined: "\<exists>x. dq d = Inr x \<Longrightarrow> \<exists>r. cached_distance dq c nid d = Inr r"
  by (auto simp: cached_distance_def split: option.splits)

lemma admits_defined: "cb \<noteq> [] \<Longrightarrow> \<exists>b. admits ef cb dv = Inr b"
  by (auto simp: admits_def)

text \<open>
  A visit over a non-empty list raises only what the distance raises: the read of the
  last element never fails, because the list only grows during the visit.
\<close>

lemma visit_neighbors_Inl:
  "visit_neighbors dq ef nbrs s = Inl e \<Longrightarrow> currentBest s \<noteq> [] \<Longrightarrow> \<exists>row \<in> set nbrs. dq (snd row) = Inl e"
proof (induction dq ef nbrs s rule: visit_neighbors.induct)
  case (1 dq ef s)
  then show ?case by simp
next
  case (2 dq ef nid d rest s)
  show ?case
  proof (cases "nid \<in> newCandidates s")
    case True
    with 2 show ?thesis by auto
  next
    case False
    show ?thesis
    proof (cases "cached_distance dq (cache s) nid d")
      case (Inl e')
      with False "2.prems"(1) show ?thesis by (auto dest: cached_distance_Inl)
    next
      case (Inr r)
      obtain dv c' where r: "r = (dv, c')" by (cases r)
      obtain adm where ad: "admits ef (currentBest s) dv = Inr adm"
        using admits_defined [OF "2.prems"(2)] by blast
      have "visit_neighbors dq ef rest
              (if adm then s\<lparr>cache := c', currentBest := currentBest s @ [(nid, dv)],
                             newCandidates := insert nid (newCandidates s), improved := True\<rparr>
               else s\<lparr>cache := c'\<rparr>) = Inl e"
        using "2.prems"(1) False Inr r ad by simp
      from "2.IH"(2) [OF False this] "2.prems"(2) show ?thesis by auto
    qed
  qed
qed

lemma visit_neighbors_defined:
  "\<forall>row \<in> set nbrs. \<exists>x. dq (snd row) = Inr x \<Longrightarrow> currentBest s \<noteq> [] \<Longrightarrow> \<exists>s'. visit_neighbors dq ef nbrs s = Inr s'"
proof (cases "visit_neighbors dq ef nbrs s")
  case (Inl e)
  assume "\<forall>row \<in> set nbrs. \<exists>x. dq (snd row) = Inr x" "currentBest s \<noteq> []"
  with visit_neighbors_Inl [OF Inl] show ?thesis by fastforce
qed simp

section \<open>One round\<close>

lemma literals_of_candidates:
  "real_of_int ` fst ` set cs \<subseteq> set (concat (map (key_literals \<circ> pair_key) cs))"
  by (force simp: pair_key_def)

lemma literals_of_cache:
  "KNum i \<in> fst ` set c \<Longrightarrow> real_of_int i \<in> set (concat (map (key_literals \<circ> fst) c))"
  by force

lemma sorted_hd_le: "sorted (map f xs) \<Longrightarrow> y \<in> set xs \<Longrightarrow> f (hd xs) \<le> f y"
  by (cases xs) auto

lemma cand_ok_id: "cand_ok ns dq p \<Longrightarrow> fst p \<in> fst ` set ns"
  by (force simp: cand_ok_def)

text \<open>The state a round starts its visit from satisfies the round invariant.\<close>

lemma round_inv_start:
  "list_all (entry_ok ns dq) c \<Longrightarrow>
   round_inv ns dq X old \<lparr>currentBest = old, cache = c, newCandidates = {}, improved = False\<rparr>"
  unfolding round_inv_def by (intro conjI exI [of _ "[]"]) auto

text \<open>
  What the truncated, stably sorted list keeps of the invariant: unique ids, ascending
  distances, at most \<open>ef\<close> entries, honest distances, and (when \<open>ef \<ge> 1\<close>) a first
  entry no farther than the first entry before.
\<close>

lemma sorted_truncated:
  assumes "distinct (map fst (old @ p))" "list_all (cand_ok ns dq) (old @ p)"
  shows "distinct (map fst (take ef (sort_key snd (old @ p)))) \<and>
         sorted (map snd (take ef (sort_key snd (old @ p)))) \<and>
         length (take ef (sort_key snd (old @ p))) \<le> max 1 ef \<and>
         list_all (cand_ok ns dq) (take ef (sort_key snd (old @ p))) \<and>
         (1 \<le> ef \<longrightarrow> old \<noteq> [] \<longrightarrow> take ef (sort_key snd (old @ p)) \<noteq> [] \<and>
            snd (hd (take ef (sort_key snd (old @ p)))) \<le> snd (hd old))"
proof (intro conjI impI)
  let ?s = "sort_key snd (old @ p)"
  show "distinct (map fst (take ef ?s))" using assms(1) by (intro distinct_map_take) simp
  show "sorted (map snd (take ef ?s))" by (intro sorted_map_take) simp
  show "length (take ef ?s) \<le> max 1 ef" by simp
  show "list_all (cand_ok ns dq) (take ef ?s)"
    using assms(2) by (auto simp: list_all_iff dest: in_set_takeD)
  assume ef: "1 \<le> ef" and ne: "old \<noteq> []"
  have "?s \<noteq> []" using ne by (metis Nil_is_append_conv length_0_conv length_sort)
  with ef show "take ef ?s \<noteq> []" by simp
  have "hd old \<in> set ?s" using ne by simp
  then have "snd (hd ?s) \<le> snd (hd old)" by (intro sorted_hd_le [where f = snd]) simp_all
  moreover have "hd (take ef ?s) = hd ?s" using ef ne by (simp add: hd_take)
  ultimately show "snd (hd (take ef ?s)) \<le> snd (hd old)" by simp
qed

text \<open>
  A round keeps the search invariant and only adds cache keys. A round that sets
  \<^verbatim>\<open>improved\<close> adds the key of a node that was not cached before. With
  \<open>ef \<ge> 1\<close> the first entry never gets farther from the query.
\<close>

lemma expand_round_inv:
  assumes sc: "store_contract ns g" and inv: "search_inv ns dq ef st"
    and er: "expand_round g dq ef layer st = Inr (imp, st')"
  shows "search_inv ns dq ef st' \<and> fst ` set (cache st) \<subseteq> fst ` set (cache st') \<and>
         (imp \<longrightarrow> (\<exists>i \<in> fst ` set ns. KNum i \<in> fst ` set (cache st') \<and> KNum i \<notin> fst ` set (cache st))) \<and>
         (1 \<le> ef \<longrightarrow> currentBest st \<noteq> [] \<longrightarrow>
            currentBest st' \<noteq> [] \<and> snd (hd (currentBest st')) \<le> snd (hd (currentBest st)))"
proof -
  define old where "old = currentBest st"
  define fc where "fc = filter (\<lambda>c. not_expanded (cache st) (pair_key c) layer) old"
  define excl where "excl = concat (map (key_literals \<circ> pair_key) old) @ concat (map (key_literals \<circ> fst) (cache st))"
  define nbrs where "nbrs = neighbors g (concat (map (key_literals \<circ> pair_key) fc)) layer excl"
  have eq: "expand_round g dq ef layer st =
     (if fc = [] \<or> nbrs = [] then Inr (False, st)
      else bind_result (visit_neighbors dq ef nbrs
                         \<lparr>currentBest = old, cache = cache st, newCandidates = {}, improved = False\<rparr>)
             (\<lambda>s. Inr (improved s, \<lparr>currentBest = take ef (sort_key snd (currentBest s)), cache = cache s\<rparr>)))"
    by (simp add: expand_round_def Let_def fc_def old_def nbrs_def excl_def)
  show ?thesis
  proof (cases "fc = [] \<or> nbrs = []")
    case True
    then have "imp = False" "st' = st" using er by (simp_all add: eq)
    then show ?thesis using inv by simp
  next
    case False
    then obtain s where
      vis: "visit_neighbors dq ef nbrs \<lparr>currentBest = old, cache = cache st, newCandidates = {}, improved = False\<rparr> = Inr s"
      and imp: "imp = improved s"
      and st': "st' = \<lparr>currentBest = take ef (sort_key snd (currentBest s)), cache = cache s\<rparr>"
      using er by (auto simp: eq bind_result_Inr_iff)
    have rows: "\<forall>row \<in> set nbrs. row \<in> set ns \<and> real_of_int (fst row) \<notin> set excl"
      using sc unfolding store_contract_def nbrs_def by blast
    have ce0: "list_all (entry_ok ns dq) (cache st)" using inv by (simp add: search_inv_def)
    from visit_neighbors_inv [OF vis rows round_inv_start [OF ce0]]
    have ri: "round_inv ns dq (set excl) old s" and mono: "fst ` set (cache st) \<subseteq> fst ` set (cache s)"
      by simp_all
    then obtain p where p: "currentBest s = old @ p" "distinct (map fst p)" "set (map fst p) = newCandidates s"
        "list_all (cand_ok ns dq) p" "improved s \<longleftrightarrow> p \<noteq> []"
      and nc: "\<forall>i \<in> newCandidates s. real_of_int i \<notin> set excl \<and> KNum i \<in> fst ` set (cache s)"
      and ce: "list_all (entry_ok ns dq) (cache s)"
      unfolding round_inv_def by blast
    have oldX: "real_of_int ` fst ` set old \<subseteq> set excl"
      using literals_of_candidates [of old] by (auto simp: excl_def)
    have "distinct (map fst old)" using inv by (simp add: search_inv_def old_def)
    moreover have "fst ` set old \<inter> fst ` set p = {}" using p(3) nc oldX by force
    ultimately have dist: "distinct (map fst (old @ p))" using p(2) by simp
    have cok: "list_all (cand_ok ns dq) (old @ p)" using inv p(4) by (simp add: search_inv_def old_def)
    note tr = sorted_truncated [OF dist cok, of ef]
    have inv': "search_inv ns dq ef st'" using tr ce by (simp add: search_inv_def st' p(1))
    have fresh: "\<exists>i \<in> fst ` set ns. KNum i \<in> fst ` set (cache st') \<and> KNum i \<notin> fst ` set (cache st)"
      if "imp"
    proof -
      from that imp p(5) obtain q where "q \<in> set p" by (cases p) auto
      then have q: "fst q \<in> newCandidates s" "cand_ok ns dq q" using p(3,4) by (auto simp: list_all_iff)
      with nc have "real_of_int (fst q) \<notin> set excl" "KNum (fst q) \<in> fst ` set (cache s)" by auto
      moreover have "KNum (fst q) \<notin> fst ` set (cache st)"
        using literals_of_cache [of "fst q" "cache st"] calculation(1) by (auto simp: excl_def)
      moreover have "fst q \<in> fst ` set ns" by (rule cand_ok_id [OF q(2)])
      ultimately show ?thesis unfolding st' by (intro bexI [of _ "fst q"]) simp_all
    qed
    show ?thesis using inv' mono fresh tr by (auto simp: st' p(1) old_def)
  qed
qed

lemma expand_round_Inl:
  assumes sc: "store_contract ns g" and er: "expand_round g dq ef layer st = Inl e"
  shows "\<exists>row \<in> set ns. dq (snd row) = Inl e"
proof -
  have "currentBest st \<noteq> []" using er by (auto simp: expand_round_def Let_def)
  moreover from er obtain srcs excl where
    "visit_neighbors dq ef (neighbors g srcs layer excl)
       \<lparr>currentBest = currentBest st, cache = cache st, newCandidates = {}, improved = False\<rparr> = Inl e"
    by (auto simp: expand_round_def Let_def bind_result_Inl_iff split: if_splits)
  ultimately obtain row where "row \<in> set (neighbors g srcs layer excl)" "dq (snd row) = Inl e"
    using visit_neighbors_Inl by fastforce
  with sc show ?thesis unfolding store_contract_def by blast
qed

section \<open>The layer loop returns\<close>

lemma card_uncached_less:
  assumes "A \<subseteq> A'" and "i \<in> B" and "i \<in> A'" and "i \<notin> A" and "finite B"
  shows "card (B - A') < card (B - A)"
  using assms by (intro psubset_card_mono) auto

text \<open>
  \<open>while (improved)\<close> ends: every round that sets \<^verbatim>\<open>improved\<close> caches a node of the
  table that was not cached, so the number of uncached node ids decreases. The loop
  returns a state satisfying the invariant, or an error of the distance on some row.
\<close>

lemma layer_search_total:
  assumes sc: "store_contract ns g"
  shows "search_inv ns dq ef st \<Longrightarrow> \<exists>res. layer_search g dq ef layer st = Some res \<and>
     (\<forall>st'. res = Inr st' \<longrightarrow> search_inv ns dq ef st' \<and>
        (1 \<le> ef \<longrightarrow> currentBest st \<noteq> [] \<longrightarrow>
           currentBest st' \<noteq> [] \<and> snd (hd (currentBest st')) \<le> snd (hd (currentBest st)))) \<and>
     (\<forall>e. res = Inl e \<longrightarrow> (\<exists>row \<in> set ns. dq (snd row) = Inl e))"
proof (induction "card (fst ` set ns - {i. KNum i \<in> fst ` set (cache st)})" arbitrary: st rule: less_induct)
  case less
  show ?case
  proof (cases "expand_round g dq ef layer st")
    case (Inl e)
    then show ?thesis using expand_round_Inl [OF sc Inl] by (simp add: layer_search.simps)
  next
    case (Inr r)
    obtain imp st' where r: "r = (imp, st')" by (cases r)
    note round = expand_round_inv [OF sc less.prems Inr [unfolded r]]
    show ?thesis
    proof (cases imp)
      case False
      then show ?thesis using Inr r round by (simp add: layer_search.simps)
    next
      case True
      with round obtain i where i: "i \<in> fst ` set ns" "KNum i \<in> fst ` set (cache st')"
        "KNum i \<notin> fst ` set (cache st)" by blast
      have "card (fst ` set ns - {i. KNum i \<in> fst ` set (cache st')})
            < card (fst ` set ns - {i. KNum i \<in> fst ` set (cache st)})"
        using round i by (intro card_uncached_less) auto
      from less.hyps [OF this] round obtain res where
        res: "layer_search g dq ef layer st' = Some res"
        "\<forall>st''. res = Inr st'' \<longrightarrow> search_inv ns dq ef st'' \<and>
           (1 \<le> ef \<longrightarrow> currentBest st' \<noteq> [] \<longrightarrow>
              currentBest st'' \<noteq> [] \<and> snd (hd (currentBest st'')) \<le> snd (hd (currentBest st')))"
        "\<forall>e. res = Inl e \<longrightarrow> (\<exists>row \<in> set ns. dq (snd row) = Inl e)"
        by blast
      have "layer_search g dq ef layer st = Some res"
        using Inr r True res(1) by (simp add: layer_search.simps)
      with res(2,3) round show ?thesis by (fastforce intro: order_trans)
    qed
  qed
qed

section \<open>The whole search\<close>

lemma descend_total:
  assumes sc: "store_contract ns g"
  shows "search_inv ns dq ef st \<Longrightarrow> \<exists>res. descend g dq ef l st = Some res \<and>
     (\<forall>st'. res = Inr st' \<longrightarrow> search_inv ns dq ef st' \<and>
        (1 \<le> ef \<longrightarrow> currentBest st \<noteq> [] \<longrightarrow>
           currentBest st' \<noteq> [] \<and> snd (hd (currentBest st')) \<le> snd (hd (currentBest st)))) \<and>
     (\<forall>e. res = Inl e \<longrightarrow> (\<exists>row \<in> set ns. dq (snd row) = Inl e))"
proof (induction l arbitrary: st)
  case 0
  then show ?case using layer_search_total [OF sc] by simp
next
  case (Suc l)
  from layer_search_total [OF sc Suc.prems, where layer = "Suc l"] obtain res where
    res: "layer_search g dq ef (Suc l) st = Some res"
    "\<forall>st'. res = Inr st' \<longrightarrow> search_inv ns dq ef st' \<and>
        (1 \<le> ef \<longrightarrow> currentBest st \<noteq> [] \<longrightarrow>
           currentBest st' \<noteq> [] \<and> snd (hd (currentBest st')) \<le> snd (hd (currentBest st)))"
    "\<forall>e. res = Inl e \<longrightarrow> (\<exists>row \<in> set ns. dq (snd row) = Inl e)"
    by blast
  show ?case
  proof (cases res)
    case (Inl e)
    with res show ?thesis by simp
  next
    case (Inr st')
    with res Suc.IH [of st'] show ?thesis by (fastforce intro: order_trans)
  qed
qed

lemma init_best_inv:
  assumes sc: "store_contract ns g" and ib: "init_best g dq r = Inr cb"
  shows "search_inv ns dq ef \<lparr>currentBest = cb, cache = []\<rparr>"
proof -
  from map_result_Inr [OF ib [unfolded init_best_def]]
  have len: "length cb = length (random_node g r)"
    and nth: "\<forall>i < length cb. (case random_node g r ! i of (nid, d) \<Rightarrow> bind_result (dq d) (\<lambda>x. Inr (nid, x))) = Inr (cb ! i)"
    by auto
  have one: "length cb \<le> 1" and sub: "set (random_node g r) \<subseteq> set ns"
    using sc len by (auto simp: store_contract_def)
  have "cand_ok ns dq (cb ! i)" if "i < length cb" for i
  proof -
    obtain nid d where row: "random_node g r ! i = (nid, d)" by (cases "random_node g r ! i")
    from nth that row have "bind_result (dq d) (\<lambda>x. Inr (nid, x)) = Inr (cb ! i)" by auto
    then obtain x where "dq d = Inr x" "cb ! i = (nid, x)"
      by (auto simp: bind_result_Inr_iff)
    moreover have "(nid, d) \<in> set ns" using sub that len row nth_mem by (metis subsetD)
    ultimately show ?thesis by (auto simp: cand_ok_def)
  qed
  then have "list_all (cand_ok ns dq) cb" by (metis in_set_conv_nth list_all_iff)
  moreover have "distinct (map fst cb)" "sorted (map snd cb)" using one
    by (cases cb; simp)+
  ultimately show ?thesis using one by (simp add: search_inv_def)
qed

lemma init_best_Inl:
  assumes sc: "store_contract ns g" and ib: "init_best g dq r = Inl e"
  shows "\<exists>row \<in> set ns. dq (snd row) = Inl e"
proof -
  from map_result_Inl [OF ib [unfolded init_best_def]] obtain nid d where
    "(nid, d) \<in> set (random_node g r)" "bind_result (dq d) (\<lambda>x. Inr (nid, x)) = Inl e"
    by auto
  with sc show ?thesis by (force simp: store_contract_def bind_result_Inl_iff)
qed

lemma search_best_total:
  assumes sc: "store_contract ns g"
  shows "\<exists>res. search_best g dq ef r = Some res \<and>
     (\<forall>cb. res = Inr cb \<longrightarrow> search_inv ns dq ef \<lparr>currentBest = cb, cache = []\<rparr> \<and>
        (1 \<le> ef \<longrightarrow> (\<forall>c. init_best g dq r = Inr [c] \<longrightarrow> cb \<noteq> [] \<and> snd (hd cb) \<le> snd c))) \<and>
     (\<forall>e. res = Inl e \<longrightarrow> (\<exists>row \<in> set ns. dq (snd row) = Inl e))"
proof (cases "init_best g dq r")
  case (Inl e)
  then show ?thesis using init_best_Inl [OF sc Inl] by (simp add: search_best_def)
next
  case (Inr cb0)
  note ib = Inr
  let ?L = "if 0 < count_nodes g then floor_log2 (count_nodes g) else 0"
  have eq: "search_best g dq ef r =
      bind_outcome (descend g dq ef ?L \<lparr>currentBest = cb0, cache = []\<rparr>) (\<lambda>st. Some (Inr (currentBest st)))"
    using ib by (simp add: search_best_def Let_def)
  from descend_total [OF sc init_best_inv [OF sc Inr, where ef = ef], where l = ?L] obtain res where
    res: "descend g dq ef ?L \<lparr>currentBest = cb0, cache = []\<rparr> = Some res"
    "\<forall>st'. res = Inr st' \<longrightarrow> search_inv ns dq ef st' \<and>
        (1 \<le> ef \<longrightarrow> cb0 \<noteq> [] \<longrightarrow> currentBest st' \<noteq> [] \<and> snd (hd (currentBest st')) \<le> snd (hd cb0))"
    "\<forall>e. res = Inl e \<longrightarrow> (\<exists>row \<in> set ns. dq (snd row) = Inl e)"
    by (auto simp only: search_state.select_convs)
  show ?thesis
  proof (cases res)
    case (Inl e)
    with res show ?thesis by (simp add: eq)
  next
    case (Inr st')
    with res ib show ?thesis by (auto simp: eq search_inv_def)
  qed
qed

section \<open>Properties of the search\<close>

lemma search_ids_of_best:
  "search_ids g dq k ef r = Some (Inr ids) \<Longrightarrow> \<exists>cb. search_best g dq ef r = Some (Inr cb) \<and> ids = map fst (take k cb)"
  by (auto simp: search_ids_def bind_outcome_Some_Inr_iff)

lemma search_best_dims_Inr:
  assumes "store_contract ns g" and "list_all (\<lambda>row. \<exists>x. dq (snd row) = Inr x) ns"
  shows "\<exists>cb. search_best g dq ef r = Some (Inr cb)"
proof -
  from search_best_total [OF assms(1)] obtain res where
    "search_best g dq ef r = Some res" "\<forall>e. res = Inl e \<longrightarrow> (\<exists>row \<in> set ns. dq (snd row) = Inl e)"
    by blast
  with assms(2) show ?thesis by (cases res) (auto simp: list_all_iff)
qed

text \<open>C2: for every store satisfying the contract, the search returns (the \<^verbatim>\<open>while (improved)\<close> loops end).\<close>

theorem search_best_returns: "store_contract ns g \<Longrightarrow> \<exists>res. search_best g dq ef r = Some res"
  using search_best_total by blast

text \<open>
  C12: a search fails only with an error the distance raised on a row of the node
  table; the \<^verbatim>\<open>TypeError\<close> of reading the last element of an empty list never occurs.
\<close>

theorem search_best_errors:
  "store_contract ns g \<Longrightarrow> search_best g dq ef r = Some (Inl e) \<Longrightarrow> \<exists>row \<in> set ns. dq (snd row) = Inl e"
  using search_best_total [of ns g dq ef r] by auto

text \<open>
  C1: the final best-list has unique node ids, ascending distances, at most
  \<open>max 1 ef\<close> entries, and each entry's distance is the distance of a node of the table.
\<close>

theorem search_best_result:
  assumes "store_contract ns g" and "search_best g dq ef r = Some (Inr cb)"
  shows "distinct (map fst cb) \<and> sorted (map snd cb) \<and> length cb \<le> max 1 ef \<and>
         list_all (\<lambda>c. \<exists>v. (fst c, v) \<in> set ns \<and> dq v = Inr (snd c)) cb"
  using search_best_total [OF assms(1), of dq ef r] assms(2)
  by (auto simp: search_inv_def cand_ok_def [abs_def])

text \<open>
  C3: the returned ids are distinct node ids of the table, at most \<open>k\<close>, at most
  \<open>max 1 ef\<close>, and at most the node count.
\<close>

theorem search_ids_bounds:
  assumes sc: "store_contract ns g" and res: "search_ids g dq k ef r = Some (Inr ids)"
  shows "distinct ids \<and> length ids \<le> min k (max 1 ef) \<and> length ids \<le> count_nodes g \<and>
         set ids \<subseteq> fst ` set ns"
proof -
  from search_ids_of_best [OF res] obtain cb where
    cb: "search_best g dq ef r = Some (Inr cb)" and ids: "ids = map fst (take k cb)" by blast
  from search_best_total [OF sc, of dq ef r] cb
  have inv: "search_inv ns dq ef \<lparr>currentBest = cb, cache = []\<rparr>" by auto
  then have d: "distinct ids" and l: "length ids \<le> min k (max 1 ef)"
    by (auto simp: search_inv_def ids take_map [symmetric])
  have sub: "set ids \<subseteq> fst ` set ns"
    using inv by (auto simp: search_inv_def ids list_all_iff dest!: in_set_takeD cand_ok_id)
  have "length ids = card (set ids)" using d by (simp add: distinct_card)
  also have "\<dots> \<le> card (fst ` set ns)" using sub by (intro card_mono) simp_all
  also have "\<dots> \<le> length ns" by (metis card_image_le card_length finite_set order_trans)
  finally show ?thesis using d l sub sc by (simp add: store_contract_def)
qed

text \<open>
  C36: with \<open>ef \<ge> 1\<close> the search never ends farther from the query than its entry point:
  the first result is at most as far as the random entry node.
\<close>

theorem search_best_progress:
  assumes "store_contract ns g" and "1 \<le> ef" and "init_best g dq r = Inr [c]"
    and "search_best g dq ef r = Some (Inr cb)"
  shows "cb \<noteq> [] \<and> snd (hd cb) \<le> snd c"
  using search_best_total [OF assms(1), of dq ef r] assms(2-4) by auto


lemma layer_search_no_round:
  "expand_round g dq ef layer st = Inr (False, st) \<Longrightarrow> layer_search g dq ef layer st = Some (Inr st)"
  by (simp add: layer_search.simps)

lemma descend_no_round:
  "(\<And>layer. layer \<le> l \<Longrightarrow> expand_round g dq ef layer st = Inr (False, st)) \<Longrightarrow> descend g dq ef l st = Some (Inr st)"
  by (induction l) (simp_all add: layer_search_no_round)

text \<open>
  C23: a drawn entry node with no edge out of it is the whole result, for every
  \<open>ef\<close>. The neighbour query is built from the literal list \<open>i,d\<close> of the entry
  candidate \<open>[i, d]\<close>, so the entry is isolated when no edge leaves a node whose id is
  \<open>i\<close> or the number \<open>d\<close>. Every round then ends at the empty neighbour list, before the
  truncation to \<open>ef\<close>. With \<open>ef = 0\<close> the result has one id, where the spec bounds it
  by \<open>min(k, ef, count) = 0\<close>.
\<close>

theorem isolated_entry_returned:
  assumes "nodes_tbl t \<noteq> []" "nodes_tbl t ! (r mod length (nodes_tbl t)) = (i, v)" "dq v = Inr d"
    and "\<forall>e \<in> set (edges_tbl t). fst e \<noteq> i \<and> real_of_int (fst e) \<noteq> d" "0 < k"
  shows "search_ids (sql_store t) dq k ef r = Some (Inr [i])"
proof -
  let ?st = "\<lparr>currentBest = [(i, d)], cache = []\<rparr> :: 'a search_state"
  have "filtered_edges (edges_tbl t) [real_of_int i, d] layer excl = []" for layer excl
    using assms(4) by (auto simp: filtered_edges_def filter_empty_conv)
  then have "expand_round (sql_store t) dq ef layer ?st = Inr (False, ?st)" for layer
    by (simp add: expand_round_def not_expanded_def pair_key_def sql_store_def join_nodes_def)
  then have "descend (sql_store t) dq ef l ?st = Some (Inr ?st)" for l
    by (rule descend_no_round)
  moreover have "init_best (sql_store t) dq r = Inr [(i, d)]"
    using assms(1-3) by (simp add: init_best_def sql_store_def)
  ultimately show ?thesis
    using assms(5) by (simp add: search_ids_def search_best_def Let_def)
qed

text \<open>
  C21: the plain \<^verbatim>\<open>searchWithSql\<close> returns, and raises nothing, when every node vector has the
  query's length; it returns one document lookup per id.
\<close>

theorem searchWithSql_total:
  assumes "store_contract ns g" and "list_all (\<lambda>row. length (snd row) = length q) ns"
  shows "\<exists>ids. search_ids g (\<lambda>data. euclideanDistanceSquared data q) k ef r = Some (Inr ids) \<and>
                searchWithSql g q k ef r = Some (Inr (map (fetch_text g) ids))"
proof -
  have "list_all (\<lambda>row. \<exists>x. euclideanDistanceSquared (snd row) q = Inr x) ns"
    using assms(2) by (auto simp: list_all_iff euclideanDistanceSquared_Inr_iff)
  from search_best_dims_Inr [OF assms(1) this] obtain cb where
    "search_best g (\<lambda>data. euclideanDistanceSquared data q) ef r = Some (Inr cb)" by blast
  then show ?thesis by (simp add: searchWithSql_def search_ids_def)
qed

text \<open>
  C22: the quantized \<^verbatim>\<open>searchWithSql\<close> returns, and raises nothing, when every node array
  has the query's length.
\<close>

theorem searchWithSql_q_total:
  assumes "store_contract ns g" and "list_all (\<lambda>row. length (ta_values (snd row)) = length q) ns"
  shows "\<exists>docs. searchWithSql_q g q k ef r = Some (Inr docs)"
proof -
  let ?dq = "\<lambda>data. euclideanDistanceSquared_q 8 (map real_of_int (ta_values data))
                        (map real_of_int (ta_values (quantizeVector 8 q)))"
  have "list_all (\<lambda>row. \<exists>x. ?dq (snd row) = Inr x) ns"
    using assms(2) by (auto simp: list_all_iff euclideanDistanceSquared_q_def Let_def)
  from search_best_dims_Inr [OF assms(1) this] obtain cb where
    "search_best g ?dq ef r = Some (Inr cb)" by blast
  then show ?thesis by (simp add: searchWithSql_q_def search_ids_def)
qed

text \<open>\<open>floor_log2\<close> is \<^verbatim>\<open>Math.floor(Math.log2(count))\<close>: the largest \<open>L\<close> with \<open>2 ^ L \<le> count\<close>.\<close>

theorem floor_log2_bounds: "0 < n \<Longrightarrow> 2 ^ floor_log2 n \<le> n \<and> n < 2 ^ Suc (floor_log2 n)"
proof (induction n rule: floor_log2.induct)
  case (1 n)
  show ?case
  proof (cases "n < 2")
    case True
    with "1.prems" show ?thesis by (simp add: floor_log2.simps [of n])
  next
    case False
    with "1.IH" have "2 ^ floor_log2 (n div 2) \<le> n div 2 \<and> n div 2 < 2 ^ Suc (floor_log2 (n div 2))"
      by simp
    with False show ?thesis by (simp add: floor_log2.simps [of n]) linarith
  qed
qed

theorem floor_log2_bounds_witness: "floor_log2 5 = 2 \<and> 2 ^ 2 \<le> (5::nat) \<and> (5::nat) < 2 ^ 3"
proof -
  have "floor_log2 5 = 2" by (simp add: floor_log2.simps)
  with floor_log2_bounds [of 5] show ?thesis by simp
qed

text \<open>
  C14: the cache is a faithful store. Once \<^verbatim>\<open>cache[neighborId] = {data, distance}\<close>
  has run (or the entry was there), the next visit of the same node finds that distance,
  computes nothing, and leaves the cache unchanged. The insertion changes no other key.
\<close>

theorem cached_distance_roundtrip:
  assumes "cached_distance dq c nid d = Inr (dv, c')"
  shows "cached_distance dq c' nid d' = Inr (dv, c') \<and> (\<forall>k. k \<noteq> KNum nid \<longrightarrow> map_of c' k = map_of c k)"
proof (cases "map_of c (KNum nid)")
  case None
  with assms obtain x where "dq d = Inr x" "dv = x" "c' = AList.update (KNum nid) \<lparr>data = d, distance = x\<rparr> c"
    by (auto simp: cached_distance_def bind_result_Inr_iff)
  then show ?thesis by (simp add: cached_distance_def update_conv')
next
  case (Some e)
  with assms show ?thesis by (simp add: cached_distance_def)
qed

theorem cached_distance_roundtrip_witness:
  "cached_distance (\<lambda>d. euclideanDistanceSquared d [0]) [] 3 [2] = Inr (4, [(KNum 3, \<lparr>data = [2], distance = 4\<rparr>)]) \<and>
   cached_distance (\<lambda>d. euclideanDistanceSquared d [0]) [(KNum 3, \<lparr>data = [2], distance = 4\<rparr>)] 3 [7] =
     Inr (4, [(KNum 3, \<lparr>data = [2], distance = 4\<rparr>)])"
proof -
  have c: "cached_distance (\<lambda>d. euclideanDistanceSquared d [0]) [] 3 [2] = Inr (4, [(KNum 3, \<lparr>data = [2], distance = 4\<rparr>)])"
    by (simp add: cached_distance_def euclideanDistanceSquared_def accumulate_loop.simps)
  from cached_distance_roundtrip [OF c, of "[7]"] c show ?thesis by simp
qed

end
