(* ===== verification/Session.thy ===== *)
theory Session
  imports Search
begin

text \<open>
  The SearchSession: the page code around \<^verbatim>\<open>searchWithSql\<close> in
  \<^verbatim>\<open>src/scripts/vectordb_utils.js\<close> (lines 191--305) and its copy in
  \<^verbatim>\<open>src/scripts/vectordb_utils_quantized.js\<close> (lines 235--350): \<^verbatim>\<open>embed\<close>,
  \<^verbatim>\<open>loadIndex\<close>, \<^verbatim>\<open>performSearch\<close>, \<^verbatim>\<open>debounce\<close> and the event handlers, over
  the page's global variables (\<^verbatim>\<open>cachedPath\<close>, \<^verbatim>\<open>conn\<close>) and DOM state.

  JavaScript runs one piece of code at a time, and switches between async functions
  only at an \<^verbatim>\<open>await\<close>. The page is therefore a record \<open>page\<close>, and every running
  async call is a \<open>task\<close> whose \<open>task_pc\<close> names the \<^verbatim>\<open>await\<close> it is suspended at,
  with the local variables it still needs. An \<open>event\<close> is either a user action (typing,
  a click, editing the path, a debounce timer firing) or the resolution of the promise a
  task awaits (\<open>Resume i r\<close>). \<open>page_step\<close> runs the code from that point to the next
  \<^verbatim>\<open>await\<close>; \<open>page_run\<close> runs a sequence of events, and \<open>reachable\<close> is the
  closure of the step relation. The order of events is the scheduler's choice, so every
  interleaving of overlapping searches is a sequence of events.

  DuckDB-wasm executes requests in the order they are posted to its worker, so a
  request's effect (a file registration, a closed connection, the rows a query reads) is
  placed at the step that posts it. The graph queries of one \<^verbatim>\<open>searchWithSql\<close> call
  are one step, \<open>Resume\<close> of a \<open>PSearch\<close> task: it reads the registered tables once
  and runs the modelled engine. The status texts are not modelled.

  The lemmas: invariants of every reachable page by rule induction (one debounce timer,
  closed connections only while reloading, the locked page), the guards of the input
  listener, the progress of each async call (a rank that every resumption lowers), the rendering of the
  output and its reading back, and explicit runs that exhibit the hazards of
  overlapping calls.
\<close>

section \<open>State\<close>

type_synonym conn_id = nat
type_synonym timer_id = nat

text \<open>
  The \<^verbatim>\<open>await\<close>s of \<^verbatim>\<open>loadIndex\<close>: \<^verbatim>\<open>db.connect()\<close>, the fetch and
  \<^verbatim>\<open>arrayBuffer()\<close> of the node file (one step: nothing global happens between them),
  its \<^verbatim>\<open>registerFileBuffer\<close>, and the same two for the edge file. \<open>LNodes p\<close> and
  \<open>LEdges p\<close> hold the path the URL was built from.
\<close>

datatype load_pc = LConnect | LNodes string | LRegNodes | LEdges string | LRegEdges

text \<open>
  The \<^verbatim>\<open>await\<close>s of \<^verbatim>\<open>performSearch\<close>, with its local \<^verbatim>\<open>queryData\<close> (kept as
  the text it embeds: the encoder is a parameter of the engine):
  \<^item> \<open>PEmbed t\<close>: \<^verbatim>\<open>await embed(textInput.value)\<close>, the text read at the call;
  \<^item> \<open>PClose q\<close>: \<^verbatim>\<open>await conn.close()\<close>;
  \<^item> \<open>Load q l\<close>: inside \<^verbatim>\<open>await loadIndex()\<close>; \<open>q = None\<close> for the
    \<^verbatim>\<open>loadIndex()\<close> of the blogs handler, which is not a search;
  \<^item> \<open>PConnect q\<close>: \<^verbatim>\<open>conn = await db.connect()\<close>;
  \<^item> \<open>PSearch c p q\<close>: \<^verbatim>\<open>await searchWithSql(conn, queryData, 5, cachedPath, 20)\<close>,
    with the connection and path passed;
  \<^item> \<open>POut out\<close>: the document queries of the search, with its result;
  \<^item> \<open>Done\<close>, \<open>Failed\<close> (the promise rejected), \<open>Hung\<close> (the search never returns).
\<close>

datatype task_pc =
    PEmbed string
  | PClose string
  | Load "string option" load_pc
  | PConnect string
  | PSearch conn_id string string
  | POut "string option list"
  | Done
  | Failed
  | Hung

text \<open>
  \<open>reenable\<close>: the caller runs \<^verbatim>\<open>search.disabled = false\<close> after the call returns
  (the search button, the Frankenstein link, and the page start of the plain page).
\<close>

record task =
  pc :: task_pc
  reenable :: bool

text \<open>
  The DOM values (\<^verbatim>\<open>path.value\<close>, \<^verbatim>\<open>textInput.value\<close>, \<^verbatim>\<open>instantMode.checked\<close>,
  \<^verbatim>\<open>search.disabled\<close>, \<^verbatim>\<open>output.innerHTML\<close>, \<open>None\<close> until a search
  assigns it), the module variables
  \<^verbatim>\<open>cachedPath\<close> and \<^verbatim>\<open>conn\<close>, the DuckDB side (opened and closed connections,
  the buffers registered as \<^verbatim>\<open>nodes.parquet\<close> and \<^verbatim>\<open>edges.parquet\<close>, named by the
  path they were fetched from), the debounce closure's \<^verbatim>\<open>timeoutId\<close> with the
  pending timers, and the tasks in the order they were started.
\<close>

record page =
  path_value :: string
  text_value :: string
  instant :: bool
  disabled :: bool
  cachedPath :: string
  conn :: "conn_id option"
  next_conn :: conn_id
  closed_conns :: "conn_id set"
  nodes_reg :: "string option"
  edges_reg :: "string option"
  output_html :: "string option"
  timeoutId :: "timer_id option"
  timers :: "timer_id list"
  next_timer :: timer_id
  tasks :: "task list"

text \<open>
  The search the session calls: the tables it reads, the query text, \<open>k\<close>, \<open>ef\<close>, and
  the random draw of the entry row.
\<close>

type_synonym 'v engine = "'v tables \<Rightarrow> string \<Rightarrow> nat \<Rightarrow> nat \<Rightarrow> nat \<Rightarrow> string option list outcome"

text \<open>
  The tables one search reads: the node and edge buffers registered when it queries
  them, and \<^verbatim>\<open>read_parquet('${path}/docs.parquet')\<close> of the path it was passed.
  \<open>ds p\<close> is the dataset the server holds at path \<open>p\<close>.
\<close>

definition mix_tables :: "(string \<Rightarrow> 'v tables) \<Rightarrow> string \<Rightarrow> string \<Rightarrow> string \<Rightarrow> 'v tables" where
  "mix_tables ds n e p = \<lparr>nodes_tbl = nodes_tbl (ds n), edges_tbl = edges_tbl (ds e), docs_tbl = docs_tbl (ds p)\<rparr>"

text \<open>The two engines: the plain page and the quantized page, with the encoder \<open>encoder\<close> (the \<^verbatim>\<open>extractor\<close> pipeline).\<close>

definition plain_engine :: "(string \<Rightarrow> real list) \<Rightarrow> real list engine" where
  "plain_engine encoder t q k ef r = searchWithSql (sql_store t) (encoder q) k ef r"

definition quantized_engine :: "(string \<Rightarrow> real list) \<Rightarrow> typed_array engine" where
  "quantized_engine encoder t q k ef r = searchWithSql_q (sql_store t) (encoder q) k ef r"

text \<open>
  The events: the user types (\<open>Input\<close>), edits the path field (\<open>SetPath\<close>), checks
  or unchecks the instant-mode box (\<open>ToggleInstant\<close>; the page has no listener for it,
  the \<^verbatim>\<open>input\<close> listener reads \<^verbatim>\<open>instantMode.checked\<close>), a debounce timer
  fires, one of the four clicks, or the promise a task awaits resolves (\<open>Resume\<close>).
\<close>

datatype event =
    Input string
  | SetPath string
  | ToggleInstant bool
  | FireTimer timer_id
  | ClickSearch
  | ClickBlogs
  | ClickFrankenstein
  | ClickShakespeare
  | Resume nat nat

section \<open>The page code\<close>

definition set_pc :: "nat \<Rightarrow> task_pc \<Rightarrow> page \<Rightarrow> page" where
  "set_pc i p s = s\<lparr>tasks := (tasks s)[i := (tasks s ! i)\<lparr>pc := p\<rparr>]\<rparr>"

definition new_task :: "task_pc \<Rightarrow> bool \<Rightarrow> page \<Rightarrow> page" where
  "new_task p reen s = s\<lparr>tasks := tasks s @ [\<lparr>pc = p, reenable = reen\<rparr>]\<rparr>"

text \<open>\<^verbatim>\<open>performSearch()\<close> up to its first \<^verbatim>\<open>await\<close>: \<^verbatim>\<open>embed(textInput.value)\<close>.\<close>

definition performSearch :: "bool \<Rightarrow> page \<Rightarrow> page" where
  "performSearch reen s = new_task (PEmbed (text_value s)) reen s"

text \<open>\<^verbatim>\<open>loadIndex()\<close> up to \<^verbatim>\<open>await db.connect()\<close>.\<close>

definition loadIndex_start :: "page \<Rightarrow> page" where
  "loadIndex_start s = (if path_value s \<noteq> cachedPath s then s\<lparr>cachedPath := path_value s\<rparr> else s)"

text \<open>The value of \<^verbatim>\<open>conn = await db.connect()\<close>: a fresh connection.\<close>

definition open_conn :: "page \<Rightarrow> page" where
  "open_conn s = s\<lparr>conn := Some (next_conn s), next_conn := Suc (next_conn s)\<rparr>"

text \<open>
  \<^verbatim>\<open>if (conn == null) { conn = await db.connect(); }\<close> followed by the call
  \<^verbatim>\<open>searchWithSql(conn, queryData, 5, cachedPath, 20)\<close>.
\<close>

definition to_search :: "nat \<Rightarrow> string \<Rightarrow> page \<Rightarrow> page" where
  "to_search i q s = (case conn s of None \<Rightarrow> set_pc i (PConnect q) s | Some c \<Rightarrow> set_pc i (PSearch c (cachedPath s) q) s)"

text \<open>\<^verbatim>\<open>loadIndex()\<close> resumed at each of its \<^verbatim>\<open>await\<close>s.\<close>

fun load_resume :: "nat \<Rightarrow> string option \<Rightarrow> load_pc \<Rightarrow> page \<Rightarrow> page" where
  "load_resume i q LConnect s = set_pc i (Load q (LNodes (cachedPath s))) (open_conn s)"
| "load_resume i q (LNodes p) s = set_pc i (Load q LRegNodes) (s\<lparr>nodes_reg := Some p\<rparr>)"
| "load_resume i q LRegNodes s = set_pc i (Load q (LEdges (cachedPath s))) s"
| "load_resume i q (LEdges p) s = set_pc i (Load q LRegEdges) (s\<lparr>edges_reg := Some p\<rparr>)"
| "load_resume i None LRegEdges s = set_pc i Done s"
| "load_resume i (Some q) LRegEdges s = to_search i q s"

text \<open>
  The graph queries of \<^verbatim>\<open>searchWithSql\<close> on connection \<open>c\<close>: they fail on a closed
  connection or an unregistered table; otherwise they run the engine on the registered
  tables and the documents of the path passed.
\<close>

definition search_queries :: "'v engine \<Rightarrow> (string \<Rightarrow> 'v tables) \<Rightarrow> nat \<Rightarrow> conn_id \<Rightarrow> string \<Rightarrow> string \<Rightarrow> nat \<Rightarrow> page \<Rightarrow> page" where
  "search_queries eng ds i c p q r s =
     (case (nodes_reg s, edges_reg s) of
        (Some n, Some e) \<Rightarrow>
          if c \<in> closed_conns s then set_pc i Failed s
          else (case eng (mix_tables ds n e p) q 5 20 r of
                  None \<Rightarrow> set_pc i Hung s
                | Some (Inl _) \<Rightarrow> set_pc i Failed s
                | Some (Inr out) \<Rightarrow> set_pc i (POut out) s)
      | _ \<Rightarrow> set_pc i Failed s)"

text \<open>
  \<^verbatim>\<open>output.innerHTML = out.map((t) => `<p>${t}</p>`).join("")\<close>. A document
  lookup that found no row gives \<^verbatim>\<open>undefined\<close>, which the template literal
  writes as the text \<^verbatim>\<open>undefined\<close>; a document text is inserted as it is, markup
  included.
\<close>

definition template_text :: "string option \<Rightarrow> string" where
  "template_text t = (case t of None \<Rightarrow> ''undefined'' | Some x \<Rightarrow> x)"

definition render_output :: "string option list \<Rightarrow> string" where
  "render_output out = concat (map (\<lambda>t. ''<p>'' @ template_text t @ ''</p>'') out)"

text \<open>
  Task \<open>i\<close> resumed. After \<^verbatim>\<open>embed\<close>: a changed path is cached, the old connection
  closed and the index reloaded; otherwise the search is called. After the search:
  \<^verbatim>\<open>output.innerHTML = ...\<close>, then the caller's \<^verbatim>\<open>search.disabled = false\<close>.
\<close>

definition resume :: "'v engine \<Rightarrow> (string \<Rightarrow> 'v tables) \<Rightarrow> nat \<Rightarrow> nat \<Rightarrow> page \<Rightarrow> page option" where
  "resume eng ds i r s =
     (let t = tasks s ! i in
      case pc t of
        PEmbed q \<Rightarrow>
          Some (if path_value s \<noteq> cachedPath s then
                  (let s1 = s\<lparr>cachedPath := path_value s\<rparr> in
                   case conn s1 of
                     Some c \<Rightarrow> set_pc i (PClose q) (s1\<lparr>closed_conns := insert c (closed_conns s1)\<rparr>)
                   | None \<Rightarrow> set_pc i (Load (Some q) LConnect) (loadIndex_start s1))
                else to_search i q s)
      | PClose q \<Rightarrow> Some (set_pc i (Load (Some q) LConnect) (loadIndex_start s))
      | Load q l \<Rightarrow> Some (load_resume i q l s)
      | PConnect q \<Rightarrow> Some (to_search i q (open_conn s))
      | PSearch c p q \<Rightarrow> Some (search_queries eng ds i c p q r s)
      | POut out \<Rightarrow>
          Some (let s1 = set_pc i Done (s\<lparr>output_html := Some (render_output out)\<rparr>) in
                if reenable t then s1\<lparr>disabled := False\<rparr> else s1)
      | _ \<Rightarrow> None)"

text \<open>\<^verbatim>\<open>clearTimeout(timeoutId)\<close> of the debounce closure.\<close>

definition clearTimeout :: "page \<Rightarrow> page" where
  "clearTimeout s = (case timeoutId s of None \<Rightarrow> s | Some t \<Rightarrow> s\<lparr>timers := removeAll t (timers s)\<rparr>)"

text \<open>\<^verbatim>\<open>timeoutId = setTimeout(..., wait)\<close>.\<close>

definition setTimeout :: "page \<Rightarrow> page" where
  "setTimeout s = s\<lparr>timers := timers s @ [next_timer s], timeoutId := Some (next_timer s),
                    next_timer := Suc (next_timer s)\<rparr>"

text \<open>
  \<^verbatim>\<open>debounce(callback, wait)\<close> returns a closure over one \<open>timeoutId\<close>; calling it
  clears the pending timer and sets a new one, whose callback is \<^verbatim>\<open>performSearch\<close>
  (\<open>FireTimer\<close> runs it). The page holds \<open>timeoutId\<close>, as the one closure
  \<^verbatim>\<open>debouncedInstantSearch\<close> does; the wait of 300 ms is not modelled, as any
  pending timer may fire next.
\<close>

definition debouncedInstantSearch :: "page \<Rightarrow> page" where
  "debouncedInstantSearch s = setTimeout (clearTimeout s)"

text \<open>
  The \<^verbatim>\<open>input\<close> listener: the new text, then
  \<^verbatim>\<open>if (instantMode.checked && !search.disabled) debouncedInstantSearch()\<close>.
\<close>

definition input_handler :: "string \<Rightarrow> page \<Rightarrow> page" where
  "input_handler txt s =
     (let s1 = s\<lparr>text_value := txt\<rparr> in
      if instant s1 \<and> \<not> disabled s1 then debouncedInstantSearch s1 else s1)"

text \<open>The blogs link: sets the form, then \<^verbatim>\<open>await loadIndex()\<close>; no search.\<close>

definition blogs_handler :: "page \<Rightarrow> page" where
  "blogs_handler s =
     (let s1 = s\<lparr>path_value := ''blogs'', instant := False, text_value := ''falling in love''\<rparr>
      in new_task (Load None LConnect) False (loadIndex_start s1))"

definition frankenstein_handler :: "page \<Rightarrow> page" where
  "frankenstein_handler s =
     performSearch True (s\<lparr>instant := True, path_value := ''frankenstein'', text_value := ''in the ocean''\<rparr>)"

definition shakespeare_handler :: "page \<Rightarrow> page" where
  "shakespeare_handler s =
     performSearch False (s\<lparr>path_value := ''shakespeare'', text_value := ''got some blood on their hands''\<rparr>)"

text \<open>
  One event. A disabled button delivers no click; a timer fires only while pending, and
  a task resumes only while it awaits.
\<close>

fun page_step :: "'v engine \<Rightarrow> (string \<Rightarrow> 'v tables) \<Rightarrow> event \<Rightarrow> page \<Rightarrow> page option" where
  "page_step eng ds (Input txt) s = Some (input_handler txt s)"
| "page_step eng ds (SetPath p) s = Some (s\<lparr>path_value := p\<rparr>)"
| "page_step eng ds (ToggleInstant b) s = Some (s\<lparr>instant := b\<rparr>)"
| "page_step eng ds (FireTimer t) s =
     (if t \<in> set (timers s) then Some (performSearch False (s\<lparr>timers := remove1 t (timers s)\<rparr>)) else None)"
| "page_step eng ds ClickSearch s =
     (if disabled s then None else Some (performSearch True (s\<lparr>disabled := True\<rparr>)))"
| "page_step eng ds ClickBlogs s = Some (blogs_handler s)"
| "page_step eng ds ClickFrankenstein s = Some (frankenstein_handler s)"
| "page_step eng ds ClickShakespeare s = Some (shakespeare_handler s)"
| "page_step eng ds (Resume i r) s = (if i < length (tasks s) then resume eng ds i r s else None)"

fun page_run :: "'v engine \<Rightarrow> (string \<Rightarrow> 'v tables) \<Rightarrow> event list \<Rightarrow> page \<Rightarrow> page option" where
  "page_run eng ds [] s = Some s"
| "page_run eng ds (e # es) s = (case page_step eng ds e s of None \<Rightarrow> None | Some s' \<Rightarrow> page_run eng ds es s')"

inductive reachable :: "'v engine \<Rightarrow> (string \<Rightarrow> 'v tables) \<Rightarrow> page \<Rightarrow> page \<Rightarrow> bool"
  for eng ds s0 where
  start: "reachable eng ds s0 s0"
| step: "reachable eng ds s0 s \<Longrightarrow> page_step eng ds e s = Some s' \<Longrightarrow> reachable eng ds s0 s'"

text \<open>
  The page after its module code: \<^verbatim>\<open>cachedPath = ""\<close>, \<^verbatim>\<open>conn = null\<close>,
  \<^verbatim>\<open>instantMode.checked = true\<close>, the listeners registered, and the top-level
  \<^verbatim>\<open>await performSearch()\<close> started. The path, text and button state come from the
  HTML. Both pages then run \<^verbatim>\<open>search.disabled = false\<close> (plain lines 304--305,
  quantized lines 349--350).
\<close>

definition init_page :: "string \<Rightarrow> string \<Rightarrow> bool \<Rightarrow> page" where
  "init_page p txt d0 =
     performSearch True
       \<lparr>path_value = p, text_value = txt, instant = True, disabled = d0, cachedPath = '''',
        conn = None, next_conn = 0, closed_conns = {}, nodes_reg = None, edges_reg = None,
        output_html = None, timeoutId = None, timers = [], next_timer = 0, tasks = []\<rparr>"

section \<open>Invariants and reference states\<close>

text \<open>
  The page once its first search has completed: index \<open>p\<close> loaded on connection 0,
  its result displayed, the button enabled.
\<close>

definition loaded_page :: "string \<Rightarrow> string \<Rightarrow> string option list \<Rightarrow> page" where
  "loaded_page p txt out =
     \<lparr>path_value = p, text_value = txt, instant = True, disabled = False, cachedPath = p,
      conn = Some 0, next_conn = 1, closed_conns = {}, nodes_reg = Some p, edges_reg = Some p,
      output_html = Some (render_output out), timeoutId = None, timers = [], next_timer = 0,
      tasks = [\<lparr>pc = Done, reenable = True\<rparr>]\<rparr>"

text \<open>
  At most one debounce timer is pending, and it is the one \<^verbatim>\<open>timeoutId\<close> names.
\<close>

definition timer_ok :: "page \<Rightarrow> bool" where
  "timer_ok s \<longleftrightarrow> distinct (timers s) \<and> set (timers s) \<subseteq> set_option (timeoutId s)"

text \<open>
  A task is reloading while it is between \<^verbatim>\<open>conn.close()\<close> and the
  \<^verbatim>\<open>db.connect()\<close> of its \<^verbatim>\<open>loadIndex()\<close>.
\<close>

definition reloading :: "task_pc \<Rightarrow> bool" where
  "reloading p = (case p of PClose _ \<Rightarrow> True | Load (Some _) LConnect \<Rightarrow> True | _ \<Rightarrow> False)"

text \<open>
  A task answers for a closed current connection while it is reloading, or once it has
  failed: a rejected \<^verbatim>\<open>await\<close> between \<^verbatim>\<open>conn.close()\<close> and
  \<^verbatim>\<open>db.connect()\<close> leaves the closed connection current.
\<close>

definition reloading_or_failed :: "task_pc \<Rightarrow> bool" where
  "reloading_or_failed p \<longleftrightarrow> reloading p \<or> p = Failed"

text \<open>
  Connections are numbered in the order they are opened; a closed current connection
  has a search reloading it, or a failed task.
\<close>

definition conn_ok :: "page \<Rightarrow> bool" where
  "conn_ok s \<longleftrightarrow> (\<forall>c \<in> closed_conns s. c < next_conn s) \<and>
     (case conn s of None \<Rightarrow> True
      | Some c \<Rightarrow> c < next_conn s \<and> (c \<in> closed_conns s \<longrightarrow> (\<exists>j < length (tasks s). reloading_or_failed (pc (tasks s ! j)))))"

definition finished :: "task_pc \<Rightarrow> bool" where
  "finished p = (case p of Done \<Rightarrow> True | Failed \<Rightarrow> True | Hung \<Rightarrow> True | _ \<Rightarrow> False)"

text \<open>
  The page is locked: the button disabled, no timer pending, and every task whose caller
  would re-enable the button finished.
\<close>

definition locked :: "page \<Rightarrow> bool" where
  "locked s \<longleftrightarrow> disabled s \<and> timers s = [] \<and> (\<forall>t \<in> set (tasks s). reenable t \<longrightarrow> finished (pc t))"

text \<open>
  The number of \<^verbatim>\<open>await\<close>s a task can still pass: each resumption of the task lowers
  it, and it is 0 exactly on a finished task. A settled task has returned or thrown.
\<close>

definition pc_rank :: "task_pc \<Rightarrow> nat" where
  "pc_rank p = (case p of
      PEmbed _ \<Rightarrow> 10 | PClose _ \<Rightarrow> 9
    | Load _ LConnect \<Rightarrow> 8 | Load _ (LNodes _) \<Rightarrow> 7 | Load _ LRegNodes \<Rightarrow> 6
    | Load _ (LEdges _) \<Rightarrow> 5 | Load _ LRegEdges \<Rightarrow> 4
    | PConnect _ \<Rightarrow> 3 | PSearch _ _ _ \<Rightarrow> 2 | POut _ \<Rightarrow> 1 | _ \<Rightarrow> 0)"



text \<open>
  Reading the paragraphs of an \<^verbatim>\<open>innerHTML\<close> back: the text between each
  \<^verbatim>\<open><p>\<close> and the next tag.
\<close>

function read_paragraphs :: "string \<Rightarrow> string list" where
  "read_paragraphs s =
     (if take 3 s = ''<p>'' then
        takeWhile (\<lambda>c. c \<noteq> CHR ''<'') (drop 3 s) # read_paragraphs (drop 4 (dropWhile (\<lambda>c. c \<noteq> CHR ''<'') (drop 3 s)))
      else [])"
  by auto
termination
proof (relation "measure length")
  fix s :: string
  assume "take 3 s = ''<p>''"
  then have "length (take 3 s) = 3" by simp
  then have "3 \<le> length s" by simp
  moreover have "length (dropWhile (\<lambda>c. c \<noteq> CHR ''<'') (drop 3 s)) \<le> length (drop 3 s)" by (rule length_dropWhile_le)
  ultimately show "(drop 4 (dropWhile (\<lambda>c. c \<noteq> CHR ''<'') (drop 3 s)), s) \<in> measure length" by simp
qed simp

section \<open>Execution lemmas\<close>

lemma mix_tables_same: "mix_tables ds p p p = ds p"
  by (simp add: mix_tables_def)

lemmas page_simps = page_step.simps page_run.simps resume_def set_pc_def new_task_def performSearch_def
  loadIndex_start_def open_conn_def to_search_def load_resume.simps search_queries_def clearTimeout_def
  setTimeout_def input_handler_def debouncedInstantSearch_def blogs_handler_def frankenstein_handler_def shakespeare_handler_def

lemma reachable_page_run:
  "reachable eng ds s0 s \<Longrightarrow> page_run eng ds es s = Some s' \<Longrightarrow> reachable eng ds s0 s'"
proof (induction es arbitrary: s)
  case Nil
  then show ?case by simp
next
  case (Cons e es)
  then obtain s1 where "page_step eng ds e s = Some s1" "page_run eng ds es s1 = Some s'"
    by (auto split: option.splits)
  with Cons show ?case by (blast intro: reachable.step)
qed

lemma reachable_run:
  "page_run eng ds es s0 = Some s \<Longrightarrow> reachable eng ds s0 s"
  by (rule reachable_page_run [OF reachable.start])

lemma page_run_append:
  "page_run eng ds (es1 @ es2) s = (case page_run eng ds es1 s of None \<Rightarrow> None | Some s1 \<Rightarrow> page_run eng ds es2 s1)"
  by (induction es1 arbitrary: s) (auto split: option.splits)

lemma page_start:
  assumes "p \<noteq> ''''" "eng (ds p) txt 5 20 r = Some (Inr out)"
  shows "page_run eng ds (replicate 8 (Resume 0 r)) (init_page p txt d0) = Some (loaded_page p txt out)"
  using assms by (simp add: page_simps init_page_def numeral_eq_Suc mix_tables_same loaded_page_def)

lemma reachable_iff_page_run: "reachable eng ds s0 s \<longleftrightarrow> (\<exists>es. page_run eng ds es s0 = Some s)"
proof
  assume "reachable eng ds s0 s"
  then show "\<exists>es. page_run eng ds es s0 = Some s"
  proof (induction rule: reachable.induct)
    case start
    have "page_run eng ds [] s0 = Some s0" by simp
    then show ?case by blast
  next
    case (step s e s')
    then obtain es where "page_run eng ds es s0 = Some s" by blast
    with step.hyps(2) have "page_run eng ds (es @ [e]) s0 = Some s'" by (simp add: page_run_append)
    then show ?case by blast
  qed
next
  assume "\<exists>es. page_run eng ds es s0 = Some s"
  then show "reachable eng ds s0 s" by (blast intro: reachable_run)
qed

section \<open>Frame lemmas\<close>

lemma set_pc_simps [simp]:
  "path_value (set_pc i p s) = path_value s" "text_value (set_pc i p s) = text_value s"
  "instant (set_pc i p s) = instant s" "disabled (set_pc i p s) = disabled s"
  "cachedPath (set_pc i p s) = cachedPath s" "conn (set_pc i p s) = conn s"
  "next_conn (set_pc i p s) = next_conn s" "closed_conns (set_pc i p s) = closed_conns s"
  "nodes_reg (set_pc i p s) = nodes_reg s" "edges_reg (set_pc i p s) = edges_reg s"
  "output_html (set_pc i p s) = output_html s" "timeoutId (set_pc i p s) = timeoutId s"
  "timers (set_pc i p s) = timers s" "next_timer (set_pc i p s) = next_timer s"
  "length (tasks (set_pc i p s)) = length (tasks s)"
  by (simp_all add: set_pc_def)

lemma load_resume_frame:
  "timers (load_resume i q l s) = timers s \<and> timeoutId (load_resume i q l s) = timeoutId s \<and>
   path_value (load_resume i q l s) = path_value s \<and> text_value (load_resume i q l s) = text_value s \<and>
   instant (load_resume i q l s) = instant s \<and> disabled (load_resume i q l s) = disabled s"
  by (cases "(i, q, l, s)" rule: load_resume.cases) (simp_all add: to_search_def open_conn_def split: option.split)

lemma timers_resume:
  "resume eng ds i r s = Some s' \<Longrightarrow> timers s' = timers s \<and> timeoutId s' = timeoutId s"
  by (auto simp: resume_def Let_def to_search_def loadIndex_start_def open_conn_def search_queries_def
      load_resume_frame
      split: task_pc.splits option.splits if_splits sum.splits)

lemma instant_resume: "resume eng ds i r s = Some s' \<Longrightarrow> instant s' = instant s"
  by (auto simp: resume_def Let_def to_search_def loadIndex_start_def open_conn_def search_queries_def
      load_resume_frame
      split: task_pc.splits option.splits if_splits sum.splits)

section \<open>The debounce timer\<close>

lemma timer_ok_step:
  assumes "page_step eng ds e s = Some s'" "timer_ok s"
  shows "timer_ok s'"
proof (cases e)
  case (Input str)
  have "removeAll t (timers s) = []" if "timeoutId s = Some t" for t
    using assms(2) that by (auto simp: timer_ok_def removeAll_filter_not_eq filter_empty_conv)
  with assms Input show ?thesis
    by (auto simp: timer_ok_def input_handler_def debouncedInstantSearch_def setTimeout_def clearTimeout_def Let_def
        split: option.splits if_splits)
next
  case (FireTimer t)
  with assms show ?thesis
    by (auto simp: timer_ok_def performSearch_def new_task_def dest: in_set_remove1 [THEN iffD1] split: if_splits)
next
  case (Resume i r)
  with assms have "resume eng ds i r s = Some s'" by (simp split: if_splits)
  from timers_resume [OF this] assms(2) show ?thesis by (simp add: timer_ok_def)
qed (use assms in \<open>auto simp: timer_ok_def performSearch_def new_task_def blogs_handler_def
       frankenstein_handler_def shakespeare_handler_def loadIndex_start_def Let_def split: if_splits\<close>)

lemma timer_ok_reachable: "reachable eng ds s0 s \<Longrightarrow> timer_ok s0 \<Longrightarrow> timer_ok s"
  by (induction rule: reachable.induct) (auto intro: timer_ok_step)

text \<open>
  C8: in every reachable page at most one debounce timer is pending, and it is the one
  the closure's \<^verbatim>\<open>timeoutId\<close> names: \<^verbatim>\<open>debounce\<close> clears the previous timer
  before it sets a new one.
\<close>

theorem debounce_single_timer:
  "reachable eng ds (init_page p str d0) s \<Longrightarrow> length (timers s) \<le> 1 \<and> set (timers s) \<subseteq> set_option (timeoutId s)"
proof -
  assume "reachable eng ds (init_page p str d0) s"
  moreover have "timer_ok (init_page p str d0)"
    by (simp add: timer_ok_def init_page_def performSearch_def new_task_def)
  ultimately have ok: "timer_ok s" by (rule timer_ok_reachable)
  then have "card (set (timers s)) \<le> card (set_option (timeoutId s))"
    by (simp add: timer_ok_def card_mono)
  also have "\<dots> \<le> 1" by (cases "timeoutId s") simp_all
  finally show ?thesis using ok by (simp add: timer_ok_def distinct_card [symmetric])
qed

lemma timer_ok_init_reachable: "reachable eng ds (init_page p str d0) s \<Longrightarrow> timer_ok s"
  by (erule timer_ok_reachable) (simp add: timer_ok_def init_page_def performSearch_def new_task_def)

lemma input_restarts_timer:
  assumes "instant s" "\<not> disabled s" "timer_ok s"
  shows "page_step eng ds (Input q) s =
           Some (s\<lparr>text_value := q, timers := [next_timer s], timeoutId := Some (next_timer s),
                   next_timer := Suc (next_timer s)\<rparr>)"
proof -
  have "removeAll t (timers s) = []" if "timeoutId s = Some t" for t
    using assms(3) that by (auto simp: timer_ok_def removeAll_filter_not_eq filter_empty_conv)
  moreover have "timers s = []" if "timeoutId s = None"
    using assms(3) that by (simp add: timer_ok_def)
  ultimately show ?thesis
    using assms(1,2) by (auto simp: input_handler_def debouncedInstantSearch_def setTimeout_def clearTimeout_def Let_def split: option.split)
qed

lemma input_burst:
  assumes "instant s" "\<not> disabled s" "timer_ok s"
  shows "\<exists>s'. page_run eng ds (map Input (q # qs)) s = Some s' \<and>
           timers s' = [next_timer s + length qs] \<and> text_value s' = last (q # qs) \<and>
           tasks s' = tasks s \<and> \<not> disabled s'"
  using assms
proof (induction qs arbitrary: s q)
  case Nil
  then show ?case using input_restarts_timer [OF Nil.prems, of eng ds q] by (simp del: page_step.simps)
next
  case (Cons t2 qs)
  let ?s1 = "s\<lparr>text_value := q, timers := [next_timer s], timeoutId := Some (next_timer s),
                next_timer := Suc (next_timer s)\<rparr>"
  have "instant ?s1" "\<not> disabled ?s1" "timer_ok ?s1" using Cons.prems by (simp_all add: timer_ok_def)
  from Cons.IH [OF this, of t2] input_restarts_timer [OF Cons.prems, of eng ds q] show ?case
    by (simp del: page_step.simps)
qed

text \<open>
  C15: debounce runs one search per burst of typing, for the last text. From a reachable
  page in instant mode with the button enabled, a burst of \<^verbatim>\<open>input\<close> events leaves
  one timer pending, the last one set. When it fires, one \<^verbatim>\<open>performSearch\<close> starts
  and embeds the last text; no other timer of the burst can fire.
\<close>

theorem debounce_searches_last_input:
  assumes "reachable eng ds (init_page p str d0) s" "instant s" "\<not> disabled s"
  shows "(\<exists>s'. page_run eng ds (map Input (q # qs) @ [FireTimer (next_timer s + length qs)]) s = Some s' \<and>
            timers s' = [] \<and> tasks s' = tasks s @ [\<lparr>pc = PEmbed (last (q # qs)), reenable = False\<rparr>]) \<and>
         (\<forall>t. t \<noteq> next_timer s + length qs \<longrightarrow> page_run eng ds (map Input (q # qs) @ [FireTimer t]) s = None)"
proof -
  obtain s' where s': "page_run eng ds (map Input (q # qs)) s = Some s'"
    "timers s' = [next_timer s + length qs]" "text_value s' = last (q # qs)" "tasks s' = tasks s"
    using input_burst [OF assms(2,3) timer_ok_init_reachable [OF assms(1)], of eng ds q qs] by blast
  then show ?thesis by (simp add: page_run_append performSearch_def new_task_def)
qed

lemma input_run_inert:
  assumes "\<not> instant s \<or> disabled s"
  shows "page_run eng ds (map Input qs) s = Some (s\<lparr>text_value := last (text_value s # qs)\<rparr>)"
  using assms
proof (induction qs arbitrary: s)
  case (Cons q qs)
  then have "input_handler q s = s\<lparr>text_value := q\<rparr>" by (auto simp: input_handler_def Let_def)
  with Cons.IH [of "s\<lparr>text_value := q\<rparr>"] Cons.prems show ?case by simp
qed simp

text \<open>
  C16: typing starts no search while the instant-mode box is unchecked or the search
  button is disabled. From any page in that state, a burst of \<^verbatim>\<open>input\<close> events
  changes the text only: no debounce timer is set or cleared and no call starts.
\<close>

theorem input_inert_unless_instant:
  assumes "\<not> instant s \<or> disabled s"
  shows "page_run eng ds (map Input qs) s = Some (s\<lparr>text_value := last (text_value s # qs)\<rparr>)"
  using assms by (rule input_run_inert)

text \<open>Instant mode is switched on only by the user or by the Frankenstein link.\<close>

lemma instant_off_step:
  assumes "page_step eng ds e s = Some s'" "\<not> instant s" "e \<noteq> ClickFrankenstein" "e \<noteq> ToggleInstant True"
  shows "\<not> instant s'"
proof (cases e)
  case (Resume i r)
  with assms show ?thesis by (auto dest: instant_resume split: if_splits)
next
  case (ToggleInstant b)
  with assms show ?thesis by auto
qed (use assms in \<open>auto simp: input_handler_def debouncedInstantSearch_def setTimeout_def clearTimeout_def
       performSearch_def new_task_def blogs_handler_def shakespeare_handler_def loadIndex_start_def Let_def
       split: if_splits option.splits\<close>)

lemma instant_off_run:
  "page_run eng ds es s = Some s' \<Longrightarrow> \<not> instant s \<Longrightarrow> ClickFrankenstein \<notin> set es \<Longrightarrow>
   ToggleInstant True \<notin> set es \<Longrightarrow> \<not> instant s'"
  by (induction es arbitrary: s) (auto dest: instant_off_step split: option.splits)

text \<open>
  C17: the blogs link turns instant search off for good. After it, whatever runs (other
  clicks, timers, resumed calls) until the user re-checks the box or follows the
  Frankenstein link, a burst of typing changes the text only and starts no search: the
  blogs dataset is searched from the button alone.
\<close>

theorem blogs_link_stops_instant_search:
  assumes "page_run eng ds (ClickBlogs # es) s = Some s'"
    and "ClickFrankenstein \<notin> set es" "ToggleInstant True \<notin> set es"
  shows "page_run eng ds (map Input qs) s' = Some (s'\<lparr>text_value := last (text_value s' # qs)\<rparr>)"
proof -
  have "\<not> instant (blogs_handler s)"
    by (simp add: blogs_handler_def loadIndex_start_def new_task_def Let_def)
  with assms have "\<not> instant s'" using instant_off_run [of eng ds es "blogs_handler s" s'] by simp
  then show ?thesis by (simp add: input_run_inert)
qed

section \<open>Connections\<close>

lemma reloading_simps [simp]:
  "reloading (PEmbed t) = False" "reloading (PClose q) = True" "reloading (Load qo l) = (qo \<noteq> None \<and> l = LConnect)" "reloading (PConnect q) = False"
  "reloading (PSearch c p q) = False" "reloading (POut out) = False" "reloading Done = False"
  "reloading Failed = False" "reloading Hung = False"
  by (simp_all add: reloading_def split: load_pc.split option.split)

lemma pc_set_pc:
  "j < length (tasks s) \<Longrightarrow> pc (tasks (set_pc i p s) ! j) = (if j = i then p else pc (tasks s ! j))"
  by (simp add: set_pc_def nth_list_update)

lemma reloading_or_failed_simps [simp]:
  "reloading_or_failed Failed" "p \<noteq> Failed \<Longrightarrow> reloading_or_failed p = reloading p"
  by (simp_all add: reloading_or_failed_def)

lemma conn_ok_set_pc:
  assumes "conn_ok s" "i < length (tasks s)" "reloading_or_failed (pc (tasks s ! i)) \<longrightarrow> reloading_or_failed p"
  shows "conn_ok (set_pc i p s)"
proof -
  have "\<exists>j < length (tasks s). reloading_or_failed (pc (tasks (set_pc i p s) ! j))"
    if "j < length (tasks s)" "reloading_or_failed (pc (tasks s ! j))" for j
    using that assms(3) by (metis pc_set_pc)
  with assms(1) show ?thesis by (auto simp: conn_ok_def split: option.splits)
qed

lemma conn_ok_open: "conn_ok s \<Longrightarrow> conn_ok (set_pc i p (open_conn s))"
  by (auto simp: conn_ok_def open_conn_def)

lemma conn_ok_close:
  assumes "conn_ok s" "conn s = Some c" "i < length (tasks s)" "reloading p"
  shows "conn_ok (set_pc i p (s\<lparr>closed_conns := insert c (closed_conns s)\<rparr>))"
  using assms pc_set_pc [of i "s\<lparr>closed_conns := insert c (closed_conns s)\<rparr>" i p]
  by (auto simp: conn_ok_def reloading_or_failed_def)

lemma conn_ok_new_task: "conn_ok s \<Longrightarrow> conn_ok (new_task p r s)"
  by (fastforce simp: conn_ok_def new_task_def nth_append split: option.splits)

lemma conn_ok_upd [simp]:
  "conn_ok (s\<lparr>path_value := x1\<rparr>) = conn_ok s" "conn_ok (s\<lparr>text_value := x2\<rparr>) = conn_ok s"
  "conn_ok (s\<lparr>instant := b1\<rparr>) = conn_ok s" "conn_ok (s\<lparr>disabled := b2\<rparr>) = conn_ok s"
  "conn_ok (s\<lparr>cachedPath := x3\<rparr>) = conn_ok s" "conn_ok (s\<lparr>nodes_reg := y1\<rparr>) = conn_ok s"
  "conn_ok (s\<lparr>edges_reg := y2\<rparr>) = conn_ok s" "conn_ok (s\<lparr>output_html := z\<rparr>) = conn_ok s"
  "conn_ok (s\<lparr>timers := ts\<rparr>) = conn_ok s" "conn_ok (s\<lparr>timeoutId := t1\<rparr>) = conn_ok s"
  "conn_ok (s\<lparr>next_timer := t2\<rparr>) = conn_ok s"
  by (simp_all add: conn_ok_def split: option.split)

lemma conn_ok_to_search:
  "conn_ok s \<Longrightarrow> i < length (tasks s) \<Longrightarrow> \<not> reloading_or_failed (pc (tasks s ! i)) \<Longrightarrow> conn_ok (to_search i q s)"
  by (simp add: to_search_def conn_ok_set_pc split: option.split)

lemma conn_ok_load_resume:
  assumes "conn_ok s" "i < length (tasks s)" "pc (tasks s ! i) = Load q l"
  shows "conn_ok (load_resume i q l s)"
proof (cases "(i, q, l, s)" rule: load_resume.cases)
  case 1
  with assms show ?thesis by (simp add: conn_ok_open)
qed (use assms in \<open>auto intro!: conn_ok_set_pc conn_ok_to_search simp: \<close>)

lemma conn_ok_resume:
  assumes "conn_ok s" "i < length (tasks s)" "resume eng ds i r s = Some s'"
  shows "conn_ok s'"
proof (cases "pc (tasks s ! i)")
  case (PEmbed q)
  show ?thesis
  proof (cases "path_value s \<noteq> cachedPath s")
    case True
    show ?thesis
    proof (cases "conn s")
      case None
      with True PEmbed assms show ?thesis
        by (auto simp: resume_def loadIndex_start_def Let_def intro!: conn_ok_set_pc)
    next
      case (Some c)
      have "conn_ok (set_pc i (PClose q) ((s\<lparr>cachedPath := path_value s\<rparr>)\<lparr>closed_conns := insert c (closed_conns s)\<rparr>))"
        using conn_ok_close [of "s\<lparr>cachedPath := path_value s\<rparr>" c i "PClose q"] assms Some by simp
      with True Some PEmbed assms show ?thesis by (simp add: resume_def Let_def)
    qed
  next
    case False
    with PEmbed assms show ?thesis by (auto simp: resume_def  intro!: conn_ok_to_search)
  qed
next
  case (PConnect q)
  with assms show ?thesis by (auto simp: resume_def to_search_def open_conn_def conn_ok_open [unfolded open_conn_def])
next
  case (PSearch c p q)
  with assms show ?thesis
    by (auto simp: resume_def search_queries_def  intro!: conn_ok_set_pc
        split: option.splits sum.splits if_splits)
next
  case (Load q l)
  with assms show ?thesis by (auto simp: resume_def intro: conn_ok_load_resume)
qed (use assms in \<open>auto simp: resume_def loadIndex_start_def  Let_def intro!: conn_ok_set_pc\<close>)

lemma conn_ok_step:
  assumes "page_step eng ds e s = Some s'" "conn_ok s"
  shows "conn_ok s'"
proof (cases e)
  case (Resume i r)
  with assms show ?thesis by (auto intro: conn_ok_resume split: if_splits)
qed (use assms in \<open>auto simp: input_handler_def debouncedInstantSearch_def setTimeout_def clearTimeout_def performSearch_def
       blogs_handler_def frankenstein_handler_def shakespeare_handler_def loadIndex_start_def Let_def
       intro: conn_ok_new_task split: if_splits option.splits\<close>)

lemma conn_ok_reachable: "reachable eng ds s0 s \<Longrightarrow> conn_ok s0 \<Longrightarrow> conn_ok s"
  by (induction rule: reachable.induct) (auto intro: conn_ok_step)

section \<open>The locked page\<close>

lemma tasks_set_pc: "tasks (set_pc i p s) = (tasks s)[i := (tasks s ! i)\<lparr>pc := p\<rparr>]"
  by (simp add: set_pc_def)

lemma to_search_tasks: "\<exists>p. tasks (to_search i q s) = (tasks s)[i := (tasks s ! i)\<lparr>pc := p\<rparr>]"
  by (auto simp: to_search_def tasks_set_pc split: option.split)

lemma load_resume_tasks: "\<exists>p. tasks (load_resume i q l s) = (tasks s)[i := (tasks s ! i)\<lparr>pc := p\<rparr>]"
  by (cases "(i, q, l, s)" rule: load_resume.cases)
     (auto simp: tasks_set_pc open_conn_def intro: to_search_tasks)

lemma to_search_disabled [simp]: "disabled (to_search i q s) = disabled s"
  by (simp add: to_search_def split: option.split)

lemma open_conn_tasks [simp]: "tasks (open_conn s) = tasks s" "disabled (open_conn s) = disabled s"
  by (simp_all add: open_conn_def)

lemma resume_frame:
  assumes "resume eng ds i r s = Some s'"
  shows "(\<exists>p. tasks s' = (tasks s)[i := (tasks s ! i)\<lparr>pc := p\<rparr>]) \<and>
         (\<not> reenable (tasks s ! i) \<longrightarrow> disabled s' = disabled s) \<and> \<not> finished (pc (tasks s ! i))"
  using assms
  by (auto simp: resume_def Let_def tasks_set_pc loadIndex_start_def search_queries_def finished_def
      load_resume_frame intro: to_search_tasks load_resume_tasks to_search_tasks [of i _ "open_conn s", simplified]
      split: task_pc.splits option.splits if_splits sum.splits)

lemma locked_resume:
  assumes "locked s" "i < length (tasks s)" "resume eng ds i r s = Some s'"
  shows "locked s'"
proof -
  from resume_frame [OF assms(3)] obtain p where
    ts: "tasks s' = (tasks s)[i := (tasks s ! i)\<lparr>pc := p\<rparr>]" and
    dis: "\<not> reenable (tasks s ! i) \<longrightarrow> disabled s' = disabled s" and
    run: "\<not> finished (pc (tasks s ! i))" by blast
  have "\<not> reenable (tasks s ! i)"
    using assms(1,2) run by (auto simp: locked_def)
  moreover have "set (tasks s') \<subseteq> insert ((tasks s ! i)\<lparr>pc := p\<rparr>) (set (tasks s))"
    unfolding ts by (rule set_update_subset_insert)
  ultimately show ?thesis
    using assms(1) dis timers_resume [OF assms(3)] by (auto simp: locked_def)
qed

lemma locked_step:
  assumes "page_step eng ds e s = Some s'" "locked s" "e \<noteq> ClickFrankenstein"
  shows "locked s'"
proof (cases e)
  case (Resume i r)
  with assms show ?thesis by (auto intro: locked_resume split: if_splits)
qed (use assms in \<open>auto simp: locked_def input_handler_def debouncedInstantSearch_def performSearch_def new_task_def
       blogs_handler_def shakespeare_handler_def loadIndex_start_def Let_def split: if_splits\<close>)

lemma locked_page_run:
  "page_run eng ds es s = Some s' \<Longrightarrow> locked s \<Longrightarrow> ClickFrankenstein \<notin> set es \<Longrightarrow> locked s'"
proof (induction es arbitrary: s)
  case (Cons e es)
  then obtain s1 where "page_step eng ds e s = Some s1" "page_run eng ds es s1 = Some s'"
    by (auto split: option.splits)
  with Cons show ?case by (auto intro: locked_step)
qed simp

section \<open>Progress of a task\<close>

lemma pc_rank_0: "pc_rank p = 0 \<longleftrightarrow> finished p"
  by (simp add: pc_rank_def finished_def split: task_pc.split load_pc.split)

lemma to_search_rank: "i < length (tasks s) \<Longrightarrow> pc_rank (pc (tasks (to_search i q s) ! i)) \<le> 3"
  by (simp add: to_search_def set_pc_def pc_rank_def split: option.split)


lemma pc_set_pc_same [simp]: "i < length (tasks s) \<Longrightarrow> pc (tasks (set_pc i p s) ! i) = p"
  by (simp add: set_pc_def)





lemma new_task_nth: "j < length (tasks s) \<Longrightarrow> tasks (new_task p r s) ! j = tasks s ! j"
  by (simp add: new_task_def nth_append)






section \<open>The displayed output\<close>

lemma render_output_simps [simp]:
  "render_output [] = []"
  "render_output (t # ts) = ''<p>'' @ template_text t @ ''</p>'' @ render_output ts"
  by (simp_all add: render_output_def)

lemma template_text_simps [simp]: "template_text None = ''undefined''" "template_text (Some x) = x"
  by (simp_all add: template_text_def)

declare read_paragraphs.simps [simp del]

lemma read_paragraphs_p: "read_paragraphs (CHR ''<'' # CHR ''p'' # CHR ''>'' # r) =
   takeWhile (\<lambda>c. c \<noteq> CHR ''<'') r # read_paragraphs (drop 4 (dropWhile (\<lambda>c. c \<noteq> CHR ''<'') r))"
  by (subst read_paragraphs.simps) simp

lemma read_paragraphs_Nil: "read_paragraphs [] = []"
  by (subst read_paragraphs.simps) simp

lemma read_paragraphs_concat:
  "list_all (\<lambda>t. CHR ''<'' \<notin> set t) ts \<Longrightarrow> read_paragraphs (concat (map (\<lambda>t. ''<p>'' @ t @ ''</p>'') ts)) = ts"
proof (induction ts)
  case Nil
  show ?case by (simp add: read_paragraphs_Nil)
next
  case (Cons t ts)
  then have "\<forall>c \<in> set t. c \<noteq> CHR ''<''" by auto
  with Cons show ?case by (simp add: read_paragraphs_p takeWhile_append dropWhile_append)
qed

lemma render_output_concat: "render_output out = concat (map (\<lambda>t. ''<p>'' @ t @ ''</p>'') (map template_text out))"
  by (simp add: render_output_def comp_def)

text \<open>
  C20: the displayed output reads back as the search result when no document contains
  markup: the paragraphs of \<^verbatim>\<open>output.innerHTML\<close> are the document texts in result
  order, with \<^verbatim>\<open>undefined\<close> for a lookup that found no row.
\<close>

theorem render_output_roundtrip:
  assumes "list_all (pred_option (\<lambda>x. CHR ''<'' \<notin> set x)) out"
  shows "read_paragraphs (render_output out) = map template_text out"
proof -
  have "list_all (\<lambda>t. CHR ''<'' \<notin> set t) (map template_text out)"
    using assms by (induction out) (auto simp: template_text_def split: option.split)
  then show ?thesis unfolding render_output_concat by (rule read_paragraphs_concat)
qed

text \<open>
  C30: document text is inserted into \<^verbatim>\<open>innerHTML\<close> without escaping. One document
  whose text holds \<^verbatim>\<open></p><p>\<close> is displayed as two paragraphs, as two documents
  would be, and a missing document is displayed as a document reading
  \<^verbatim>\<open>undefined\<close>.
\<close>

theorem render_output_injection:
  assumes "CHR ''<'' \<notin> set a" "CHR ''<'' \<notin> set b"
  shows "read_paragraphs (render_output [Some (a @ ''</p><p>'' @ b)]) = [a, b] \<and>
         render_output [Some (a @ ''</p><p>'' @ b)] = render_output [Some a, Some b] \<and>
         render_output [None] = render_output [Some ''undefined'']"
proof -
  have "read_paragraphs (render_output [Some a, Some b]) = [a, b]"
    using assms read_paragraphs_concat [of "[a, b]"] by simp
  then show ?thesis by simp
qed

section \<open>Runs of the page\<close>

lemma page_start_run:
  assumes "p \<noteq> ''''" "eng (ds p) str 5 20 r = Some (Inr out0)"
  shows "page_run eng ds (replicate 8 (Resume 0 r) @ es) (init_page p str d0) =
         page_run eng ds es (loaded_page p str out0)"
  using page_start [of p eng ds str r out0 d0] assms by (simp add: page_run_append)

text \<open>
  C7: searches are not serialised, and the last one to finish wins. After the page has
  loaded, the user types \<open>q1\<close>, pauses until the debounced search starts, then types
  \<open>q2\<close>. If the second search finishes first, the page ends up showing the results
  for \<open>q1\<close> while the input reads \<open>q2\<close>, with no search left running.
\<close>

theorem stale_search_overwrites:
  assumes "p \<noteq> ''''" "eng (ds p) str 5 20 r = Some (Inr out0)"
    and "eng (ds p) q1 5 20 r = Some (Inr out1)" "eng (ds p) q2 5 20 r = Some (Inr out2)"
  shows "\<exists>s. page_run eng ds (replicate 8 (Resume 0 r) @
            [Input q1, FireTimer 0, Input q2, FireTimer 1,
             Resume 2 r, Resume 2 r, Resume 2 r, Resume 1 r, Resume 1 r, Resume 1 r])
            (init_page p str d0) = Some s \<and>
         text_value s = q2 \<and> output_html s = Some (render_output out1) \<and> list_all (\<lambda>t. pc t = Done) (tasks s)"
  unfolding page_start_run [of p eng ds str r out0 _ d0, OF assms(1,2)]
  using assms by (simp add: page_simps mix_tables_same loaded_page_def)

text \<open>
  C24: a search started by the button that throws (the engine returns an error)
  never runs \<^verbatim>\<open>search.disabled = false\<close>. After that, no sequence of events
  without the Frankenstein link enables the button again or starts an instant search:
  \<^verbatim>\<open>click\<close> is not delivered, and typing sets no timer.
\<close>

theorem failed_search_locks_page:
  assumes "p \<noteq> ''''" "eng (ds p) str 5 20 r = Some (Inr out0)" "eng (ds p) str 5 20 r' = Some (Inl err)"
    and "page_run eng ds (replicate 8 (Resume 0 r) @ [ClickSearch, Resume 1 r', Resume 1 r'] @ es)
           (init_page p str d0) = Some s"
    and "ClickFrankenstein \<notin> set es"
  shows "disabled s \<and> timers s = [] \<and> page_step eng ds ClickSearch s = None \<and>
         timers (input_handler x s) = []"
proof -
  let ?s1 = "loaded_page p str out0\<lparr>disabled := True,
               tasks := [\<lparr>pc = Done, reenable = True\<rparr>, \<lparr>pc = Failed, reenable = True\<rparr>]\<rparr>"
  have "page_run eng ds ([ClickSearch, Resume 1 r', Resume 1 r'] @ es) (loaded_page p str out0) =
        page_run eng ds es ?s1"
    using assms(3) by (simp add: page_simps mix_tables_same loaded_page_def)
  with assms(4) have "page_run eng ds es ?s1 = Some s"
    unfolding page_start_run [of p eng ds str r out0 _ d0, OF assms(1,2)] by simp
  moreover have "locked ?s1" by (simp add: locked_def finished_def loaded_page_def)
  ultimately have "locked s" using assms(5) by (rule locked_page_run)
  then show ?thesis by (simp add: locked_def input_handler_def debouncedInstantSearch_def Let_def)
qed

text \<open>
  C28: one search can mix two datasets. A search is in flight on dataset \<open>p\<close> when the
  blogs link reloads the index. It reads the blogs node and edge tables, then looks up
  documents in \<open>p\<close>'s \<^verbatim>\<open>docs.parquet\<close> by the blogs node ids, and displays them.
\<close>

theorem mixed_dataset_result:
  assumes "p \<noteq> ''''" "eng (ds p) str 5 20 r = Some (Inr out0)" "p \<noteq> ''blogs''"
    and "eng (mix_tables ds ''blogs'' ''blogs'' p) q 5 20 r = Some (Inr out)"
  shows "\<exists>s. page_run eng ds (replicate 8 (Resume 0 r) @ [Input q, FireTimer 0, Resume 1 r, ClickBlogs] @
            replicate 5 (Resume 2 r) @ [Resume 1 r, Resume 1 r]) (init_page p str d0) = Some s \<and>
         output_html s = Some (render_output out) \<and> path_value s = ''blogs'' \<and> nodes_reg s = Some ''blogs'' \<and>
         list_all (\<lambda>t. pc t = Done) (tasks s)"
  unfolding page_start_run [of p eng ds str r out0 _ d0, OF assms(1,2)]
  using assms by (simp add: page_simps mix_tables_same loaded_page_def numeral_eq_Suc)

text \<open>
  C29: two \<^verbatim>\<open>loadIndex\<close> calls can interleave so that the registered graph mixes two
  datasets. The blogs link's load has registered its nodes when the Frankenstein link
  reloads and registers the Frankenstein nodes. The blogs load then registers
  the blogs edges. A later instant search walks Frankenstein nodes along blogs edges.
\<close>

theorem interleaved_loads_mix_graphs:
  assumes "p \<noteq> ''''" "p \<noteq> ''blogs''" "p \<noteq> ''frankenstein''" "eng (ds p) str 5 20 r = Some (Inr out0)"
    and "eng (mix_tables ds ''frankenstein'' ''blogs'' ''frankenstein'') q 5 20 r = Some (Inr out)"
  shows "\<exists>s. page_run eng ds (replicate 8 (Resume 0 r) @
            [ClickBlogs, Resume 1 r, Resume 1 r, Resume 1 r, ClickFrankenstein,
             Resume 2 r, Resume 2 r, Resume 2 r, Resume 2 r, Resume 1 r, Input q, FireTimer 0,
             Resume 3 r, Resume 3 r, Resume 3 r]) (init_page p str d0) = Some s \<and>
         nodes_reg s = Some ''frankenstein'' \<and> edges_reg s = Some ''blogs'' \<and> output_html s = Some (render_output out)"
  unfolding page_start_run [of p eng ds str r out0 _ d0, OF assms(1,4)]
  using assms by (simp add: page_simps loaded_page_def Let_def)

text \<open>
  C27: a search can be handed a connection that another search has closed. The Shakespeare
  link's search closes connection 0 to reload. An instant search that resumes in that
  window calls \<^verbatim>\<open>searchWithSql\<close> on the closed connection and fails. The older
  search then displays its result while the input holds the newer query.
\<close>

theorem search_on_closed_connection:
  assumes "p \<noteq> ''''" "eng (ds p) str 5 20 r = Some (Inr out0)" "p \<noteq> ''shakespeare''"
    and "eng (ds ''shakespeare'') ''got some blood on their hands'' 5 20 r = Some (Inr out)"
  shows "\<exists>s. page_run eng ds (replicate 8 (Resume 0 r) @ [ClickShakespeare, Input q, FireTimer 0, Resume 1 r, Resume 2 r])
            (init_page p str d0) = Some s \<and>
         pc (tasks s ! 2) = PSearch 0 ''shakespeare'' q \<and> 0 \<in> closed_conns s \<and>
         (\<exists>s'. page_run eng ds (Resume 2 r # replicate 8 (Resume 1 r)) s = Some s' \<and>
               pc (tasks s' ! 2) = Failed \<and> output_html s' = Some (render_output out) \<and> text_value s' = q)"
  unfolding page_start_run [of p eng ds str r out0 _ d0, OF assms(1,2)]
  using assms by (simp add: page_simps mix_tables_same loaded_page_def numeral_eq_Suc)

text \<open>
  C35: \<^verbatim>\<open>loadIndex\<close> from the blogs link opens a new connection without closing the
  current one. Once all tasks are done, connection 0 is still open and no longer
  referenced.
\<close>

theorem connection_leak:
  assumes "p \<noteq> ''''" "eng (ds p) str 5 20 r = Some (Inr out0)"
  shows "\<exists>s. page_run eng ds (replicate 8 (Resume 0 r) @ ClickBlogs # replicate 5 (Resume 1 r))
            (init_page p str d0) = Some s \<and>
         conn s = Some 1 \<and> closed_conns s = {} \<and> next_conn s = 2 \<and> list_all (\<lambda>t. pc t = Done) (tasks s)"
  unfolding page_start_run [of p eng ds str r out0 _ d0, OF assms(1,2)]
  using assms by (simp add: page_simps loaded_page_def numeral_eq_Suc Let_def split: if_split)

end
