(* ===== verification/Queries.thy ===== *)
theory Queries
  imports Search
begin

text \<open>
  The SQL of one \<^verbatim>\<open>searchWithSql\<close> round at the level of its queries. Each
  \<^verbatim>\<open>while (improved)\<close> iteration posts two queries on the search's connection
  (\<^verbatim>\<open>src/scripts/vectordb_utils.js\<close> lines 102--172):
  \<^item> \<^verbatim>\<open>DROP TABLE IF EXISTS filtered_edges; CREATE TEMP TABLE filtered_edges AS ...\<close>;
  \<^item> after that query resolves, \<^verbatim>\<open>SELECT ... FROM nodes.parquet n INNER JOIN filtered_edges e ...\<close>.
  The temporary table belongs to the connection, not to the search. A search is a thread
  \<open>qthread\<close> whose \<open>query_pc\<close> names the \<^verbatim>\<open>await\<close> it is suspended at. \<open>qstep\<close>
  resumes it once, against the connection's current table. Run alone, the steps compute
  exactly \<open>layer_search\<close> and \<open>descend\<close> of the Search theory.
  Two searches on one connection can interleave, so that one joins the other's table.
\<close>

section \<open>Threads on a connection\<close>

text \<open>
  \<^item> \<open>QRound l\<close>: at the \<^verbatim>\<open>while (improved)\<close> test of layer \<open>l\<close>;
  \<^item> \<open>QJoin l\<close>: awaiting the \<^verbatim>\<open>CREATE TEMP TABLE\<close>;
  \<^item> \<open>QVisit l rows\<close>: awaiting the join, whose rows are \<open>rows\<close>;
  \<^item> \<open>QDone\<close>: past layer 0; \<open>QFail e\<close>: the distance threw \<open>e\<close>.
\<close>

datatype 'v query_pc = QRound nat | QJoin nat | QVisit nat "(int \<times> 'v) list" | QDone | QFail js_error

record 'v qthread =
  qpc :: "'v query_pc"
  qst :: "'v search_state"

text \<open>The connection's \<^verbatim>\<open>filtered_edges\<close> table.\<close>

type_synonym temp_table = "(int \<times> int \<times> int) list"

text \<open>\<^verbatim>\<open>layer--\<close> and the test \<^verbatim>\<open>layer >= 0\<close> of the layer loop.\<close>

definition next_layer :: "nat \<Rightarrow> 'v query_pc" where
  "next_layer layer = (if layer = 0 then QDone else QRound (layer - 1))"

text \<open>
  One resumption of a search on tables \<open>t\<close>. The \<^verbatim>\<open>CREATE\<close> replaces the
  connection's table; the join reads whatever table the connection holds when it is
  executed; the visit, sort and truncation are those of \<open>expand_round\<close>.
\<close>

fun qstep :: "'v tables \<Rightarrow> ('v \<Rightarrow> real result) \<Rightarrow> nat \<Rightarrow> temp_table \<times> 'v qthread \<Rightarrow> temp_table \<times> 'v qthread" where
  "qstep t dq ef (tmp, th) =
     (let st = qst th in
      case qpc th of
        QRound layer \<Rightarrow>
          (let candidates = currentBest st;
               filteredCandidates = filter (\<lambda>c. not_expanded (cache st) (pair_key c) layer) candidates
           in if filteredCandidates = [] then (tmp, th\<lparr>qpc := next_layer layer\<rparr>)
              else (filtered_edges (edges_tbl t) (concat (map (key_literals \<circ> pair_key) filteredCandidates)) layer
                      (concat (map (key_literals \<circ> pair_key) candidates) @ concat (map (key_literals \<circ> fst) (cache st))),
                    th\<lparr>qpc := QJoin layer\<rparr>))
      | QJoin layer \<Rightarrow> (tmp, th\<lparr>qpc := QVisit layer (join_nodes (nodes_tbl t) tmp)\<rparr>)
      | QVisit layer nbrs \<Rightarrow>
          if nbrs = [] then (tmp, th\<lparr>qpc := next_layer layer\<rparr>)
          else (case visit_neighbors dq ef nbrs
                       \<lparr>currentBest = currentBest st, cache = cache st, newCandidates = {}, improved = False\<rparr> of
                  Inl e \<Rightarrow> (tmp, th\<lparr>qpc := QFail e\<rparr>)
                | Inr s \<Rightarrow> (tmp, \<lparr>qpc = if improved s then QRound layer else next_layer layer,
                                 qst = \<lparr>currentBest = take ef (sort_key snd (currentBest s)), cache = cache s\<rparr>\<rparr>))
      | _ \<Rightarrow> (tmp, th))"

text \<open>
  Two searches \<open>a\<close> and \<open>b\<close> on one connection, each with its own query distance;
  the scheduler picks which one resumes (\<open>True\<close> for \<open>a\<close>).
\<close>

fun qschedule :: "'v tables \<Rightarrow> ('v \<Rightarrow> real result) \<Rightarrow> ('v \<Rightarrow> real result) \<Rightarrow> nat \<Rightarrow> bool list \<Rightarrow>
    temp_table \<times> 'v qthread \<times> 'v qthread \<Rightarrow> temp_table \<times> 'v qthread \<times> 'v qthread" where
  "qschedule t da db ef [] x = x"
| "qschedule t da db ef (True # sel) (tmp, a, b) =
     (let (tmp', a') = qstep t da ef (tmp, a) in qschedule t da db ef sel (tmp', a', b))"
| "qschedule t da db ef (False # sel) (tmp, a, b) =
     (let (tmp', b') = qstep t db ef (tmp, b) in qschedule t da db ef sel (tmp', a, b'))"

definition outcome_pc :: "'v search_state result \<Rightarrow> 'v qthread \<Rightarrow> bool" where
  "outcome_pc res th = (case res of Inl e \<Rightarrow> qpc th = QFail e | Inr st' \<Rightarrow> qpc th = QDone \<and> qst th = st')"

section \<open>Run alone, the queries compute the search\<close>

lemma neighbors_sql_store:
  "neighbors (sql_store t) srcs layer excl = join_nodes (nodes_tbl t) (filtered_edges (edges_tbl t) srcs layer excl)"
  by (simp add: sql_store_def)

lemma qsteps_round:
  assumes "expand_round (sql_store t) dq ef layer st = res"
  shows "\<exists>n tmp'. (qstep t dq ef ^^ n) (tmp, \<lparr>qpc = QRound layer, qst = st\<rparr>) =
           (tmp', case res of Inl e \<Rightarrow> \<lparr>qpc = QFail e, qst = st\<rparr>
                   | Inr (imp, st') \<Rightarrow> \<lparr>qpc = if imp then QRound layer else next_layer layer, qst = st'\<rparr>)"
proof -
  define fc where "fc = filter (\<lambda>c. not_expanded (cache st) (pair_key c) layer) (currentBest st)"
  define fe where "fe = filtered_edges (edges_tbl t) (concat (map (key_literals \<circ> pair_key) fc)) layer
                      (concat (map (key_literals \<circ> pair_key) (currentBest st)) @ concat (map (key_literals \<circ> fst) (cache st)))"
  show ?thesis
  proof (cases "fc = []")
    case True
    then have "qstep t dq ef (tmp, \<lparr>qpc = QRound layer, qst = st\<rparr>) =
                 (tmp, \<lparr>qpc = next_layer layer, qst = st\<rparr>)"
      by (simp add: fc_def Let_def)
    moreover have "res = Inr (False, st)"
      using assms True by (simp add: expand_round_def fc_def)
    ultimately show ?thesis by (intro exI [of _ 1]) simp
  next
    case False
    have three: "(qstep t dq ef ^^ 3) (tmp, \<lparr>qpc = QRound layer, qst = st\<rparr>) =
                 qstep t dq ef (fe, \<lparr>qpc = QVisit layer (join_nodes (nodes_tbl t) fe), qst = st\<rparr>)"
      using False by (simp add: fc_def fe_def numeral_3_eq_3 Let_def)
    show ?thesis
    proof (cases "join_nodes (nodes_tbl t) fe = []")
      case True
      have "res = Inr (False, st)"
        using assms False True by (simp add: expand_round_def fc_def fe_def neighbors_sql_store)
      with True three show ?thesis by (intro exI [of _ 3]) (simp add: Let_def)
    next
      case nb: False
      show ?thesis
      proof (cases "visit_neighbors dq ef (join_nodes (nodes_tbl t) fe)
                      \<lparr>currentBest = currentBest st, cache = cache st, newCandidates = {}, improved = False\<rparr>")
        case (Inl e)
        have "res = Inl e"
          using assms False nb Inl by (simp add: expand_round_def fc_def fe_def neighbors_sql_store)
        with nb Inl three show ?thesis by (intro exI [of _ 3]) (simp add: Let_def)
      next
        case (Inr s)
        have "res = Inr (improved s, \<lparr>currentBest = take ef (sort_key snd (currentBest s)), cache = cache s\<rparr>)"
          using assms False nb Inr by (simp add: expand_round_def fc_def fe_def neighbors_sql_store)
        with nb Inr three show ?thesis by (intro exI [of _ 3]) (simp add: Let_def)
      qed
    qed
  qed
qed

lemma qsteps_layer_search:
  assumes "layer_search (sql_store t) dq ef layer st = Some res"
  shows "\<exists>n tmp' th. (qstep t dq ef ^^ n) (tmp, \<lparr>qpc = QRound layer, qst = st\<rparr>) = (tmp', th) \<and>
           (case res of Inl e \<Rightarrow> qpc th = QFail e | Inr st' \<Rightarrow> th = \<lparr>qpc = next_layer layer, qst = st'\<rparr>)"
proof -
  have "\<forall>tmp. sql_store t = sql_store t \<longrightarrow> (\<exists>n tmp' th.
           (qstep t dq ef ^^ n) (tmp, \<lparr>qpc = QRound layer, qst = st\<rparr>) = (tmp', th) \<and>
           (case res of Inl e \<Rightarrow> qpc th = QFail e | Inr st' \<Rightarrow> th = \<lparr>qpc = next_layer layer, qst = st'\<rparr>))"
  proof (rule layer_search.raw_induct [where
      P = "\<lambda>g dq ef layer st res. \<forall>tmp. g = sql_store t \<longrightarrow> (\<exists>n tmp' th.
           (qstep t dq ef ^^ n) (tmp, \<lparr>qpc = QRound layer, qst = st\<rparr>) = (tmp', th) \<and>
           (case res of Inl e \<Rightarrow> qpc th = QFail e | Inr st' \<Rightarrow> th = \<lparr>qpc = next_layer layer, qst = st'\<rparr>))",
      OF _ assms], intro allI impI)
    fix ls g dq ef layer st res tmp
    assume IH: "\<And>g dq ef layer st res. ls g dq ef layer st = Some res \<Longrightarrow> \<forall>tmp. g = sql_store t \<longrightarrow> (\<exists>n tmp' th.
           (qstep t dq ef ^^ n) (tmp, \<lparr>qpc = QRound layer, qst = st\<rparr>) = (tmp', th) \<and>
           (case res of Inl e \<Rightarrow> qpc th = QFail e | Inr st' \<Rightarrow> th = \<lparr>qpc = next_layer layer, qst = st'\<rparr>))"
      and body: "(case expand_round g dq ef layer st of Inl e \<Rightarrow> Some (Inl e)
                  | Inr (imp, st') \<Rightarrow> if imp then ls g dq ef layer st' else Some (Inr st')) = Some res"
      and g: "g = sql_store t"
    show "\<exists>n tmp' th. (qstep t dq ef ^^ n) (tmp, \<lparr>qpc = QRound layer, qst = st\<rparr>) = (tmp', th) \<and>
           (case res of Inl e \<Rightarrow> qpc th = QFail e | Inr st' \<Rightarrow> th = \<lparr>qpc = next_layer layer, qst = st'\<rparr>)"
    proof (cases "expand_round g dq ef layer st")
      case (Inl e)
      with body have "res = Inl e" by simp
      with qsteps_round [OF Inl [unfolded g], of tmp] show ?thesis by fastforce
    next
      case (Inr r)
      obtain imp st' where r: "r = (imp, st')" by (cases r)
      from qsteps_round [OF Inr [unfolded g r], of tmp] obtain n1 tmp1 where
        n1: "(qstep t dq ef ^^ n1) (tmp, \<lparr>qpc = QRound layer, qst = st\<rparr>) =
               (tmp1, \<lparr>qpc = if imp then QRound layer else next_layer layer, qst = st'\<rparr>)" by auto
      show ?thesis
      proof (cases imp)
        case False
        with body Inr r have "res = Inr st'" by simp
        with n1 False show ?thesis by auto
      next
        case True
        with body Inr r have "ls g dq ef layer st' = Some res" by simp
        from IH [OF this, rule_format, OF g, of tmp1] obtain n2 tmp2 th where
          n2: "(qstep t dq ef ^^ n2) (tmp1, \<lparr>qpc = QRound layer, qst = st'\<rparr>) = (tmp2, th)"
          "case res of Inl e \<Rightarrow> qpc th = QFail e | Inr st'' \<Rightarrow> th = \<lparr>qpc = next_layer layer, qst = st''\<rparr>"
          by blast
        have "(qstep t dq ef ^^ (n2 + n1)) (tmp, \<lparr>qpc = QRound layer, qst = st\<rparr>) = (tmp2, th)"
          using n1 n2(1) True by (simp add: funpow_add)
        with n2(2) show ?thesis by blast
      qed
    qed
  qed
  then show ?thesis by blast
qed

lemma qsteps_descend_run:
  assumes "descend (sql_store t) dq ef L st = Some res"
  shows "\<exists>n tmp' th. (qstep t dq ef ^^ n) (tmp, \<lparr>qpc = QRound L, qst = st\<rparr>) = (tmp', th) \<and> outcome_pc res th"
  using assms
proof (induction L arbitrary: st tmp)
  case 0
  then have "layer_search (sql_store t) dq ef 0 st = Some res" by simp
  from qsteps_layer_search [OF this, of tmp] obtain n tmp' th where
    "(qstep t dq ef ^^ n) (tmp, \<lparr>qpc = QRound 0, qst = st\<rparr>) = (tmp', th)"
    "case res of Inl e \<Rightarrow> qpc th = QFail e | Inr st' \<Rightarrow> th = \<lparr>qpc = next_layer 0, qst = st'\<rparr>"
    by blast
  then show ?case by (cases res) (force simp: outcome_pc_def next_layer_def)+
next
  case (Suc l)
  show ?case
  proof (cases "layer_search (sql_store t) dq ef (Suc l) st")
    case None
    with Suc.prems show ?thesis by simp
  next
    case (Some r)
    show ?thesis
    proof (cases r)
      case (Inl e)
      with Some Suc.prems have "res = Inl e" by simp
      with qsteps_layer_search [OF Some, of tmp] Inl show ?thesis by (auto simp: outcome_pc_def)
    next
      case (Inr st')
      with Some Suc.prems have d: "descend (sql_store t) dq ef l st' = Some res" by simp
      from qsteps_layer_search [OF Some, of tmp] Inr obtain n1 tmp1 where
        n1: "(qstep t dq ef ^^ n1) (tmp, \<lparr>qpc = QRound (Suc l), qst = st\<rparr>) = (tmp1, \<lparr>qpc = QRound l, qst = st'\<rparr>)"
        by (auto simp: next_layer_def)
      from Suc.IH [OF d, of tmp1] obtain n2 tmp2 th where
        n2: "(qstep t dq ef ^^ n2) (tmp1, \<lparr>qpc = QRound l, qst = st'\<rparr>) = (tmp2, th)" "outcome_pc res th" by blast
      have "(qstep t dq ef ^^ (n2 + n1)) (tmp, \<lparr>qpc = QRound (Suc l), qst = st\<rparr>) = (tmp2, th)"
        using n1 n2(1) by (simp add: funpow_add)
      with n2(2) show ?thesis by blast
    qed
  qed
qed

end
