(* ===== verification/PageQueries.thy ===== *)
theory PageQueries
  imports Session Queries
begin

text \<open>
  The composition of the Session and Queries models: the page of Session, with each
  call of \<^verbatim>\<open>searchWithSql\<close> run query by query on its connection, as in Queries.
  Session runs the graph queries of one search in a single step. Here a search task at
  \<open>PSearch c p q\<close> owns a query-level thread, and every \<open>Resume\<close> of the task
  runs one query:
  \<^item> the first runs the count and the entry query (\<^verbatim>\<open>maxLayer\<close> and
    \<^verbatim>\<open>initNodeQuery\<close>, \<^verbatim>\<open>src/scripts/vectordb_utils.js\<close> lines 77--95);
  \<^item> the next ones are the steps of \<open>qstep\<close>, each on the tables registered at
    that moment and on the temporary table its connection holds;
  \<^item> the last runs the document queries (lines 176--187) and returns the result to
    \<^verbatim>\<open>performSearch\<close>.
  A query posted on a closed connection, or on a file not registered, rejects, and the
  search fails. Every other event is \<open>page_step\<close> of Session.

  The lemmas show that a search that runs alone ends in exactly the page the one-step
  search of Session gives, and that two searches interleaved on one connection compute
  \<open>qschedule\<close> of Queries.
\<close>

section \<open>State\<close>

record 'v qpage =
  pg :: page
  temps :: "conn_id \<Rightarrow> temp_table"
  qthreads :: "nat \<Rightarrow> 'v qthread option"

text \<open>
  The page's search state: the page of Session, the \<^verbatim>\<open>filtered_edges\<close> table of
  each connection, and the query-level thread of each search task.
\<close>

type_synonym 'v query_dist = "string \<Rightarrow> 'v \<Rightarrow> real result"

text \<open>
  \<open>dqf q\<close> is the distance to the embedding of the query text \<open>q\<close>; \<open>dq_engine\<close>
  is the one-step search of Session built from it (\<open>plain_engine\<close> for the plain page).
\<close>

definition dq_engine :: "'v query_dist \<Rightarrow> 'v engine" where
  "dq_engine dqf t q k ef r =
     bind_outcome (search_ids (sql_store t) (dqf q) k ef r) (\<lambda>ids. Some (Inr (map (fetch_text (sql_store t)) ids)))"

text \<open>\<^verbatim>\<open>maxLayer = Math.floor(Math.log2(count))\<close>, 0 on an empty table.\<close>

definition max_layer :: "'v graph_store \<Rightarrow> nat" where
  "max_layer g = (if 0 < count_nodes g then floor_log2 (count_nodes g) else 0)"

text \<open>
  Whether the next step of a thread posts a query: the \<^verbatim>\<open>CREATE TEMP TABLE\<close> of a
  round with candidates left, or the join.
\<close>

definition round_candidates :: "'v search_state \<Rightarrow> nat \<Rightarrow> (int \<times> real) list" where
  "round_candidates st layer = filter (\<lambda>c. not_expanded (cache st) (pair_key c) layer) (currentBest st)"

definition posts_query :: "'v qthread \<Rightarrow> bool" where
  "posts_query th = (case qpc th of QRound layer \<Rightarrow> round_candidates (qst th) layer \<noteq> [] | QJoin _ \<Rightarrow> True | _ \<Rightarrow> False)"

text \<open>The promise of \<^verbatim>\<open>searchWithSql\<close> rejects, and so does \<^verbatim>\<open>performSearch\<close>.\<close>

definition fail_task :: "nat \<Rightarrow> 'v qpage \<Rightarrow> 'v qpage" where
  "fail_task i cs = cs\<lparr>pg := set_pc i Failed (pg cs), qthreads := (qthreads cs)(i := None)\<rparr>"

text \<open>
  One resumption of the search of task \<open>i\<close>, called with connection \<open>c\<close>, path \<open>p\<close>
  and query text \<open>q\<close>, with \<open>k = 5\<close> and \<open>ef = 20\<close> as \<^verbatim>\<open>performSearch\<close> passes.
\<close>

definition search_resume :: "'v query_dist \<Rightarrow> (string \<Rightarrow> 'v tables) \<Rightarrow> nat \<Rightarrow> conn_id \<Rightarrow> string \<Rightarrow> string \<Rightarrow> nat \<Rightarrow> 'v qpage \<Rightarrow> 'v qpage" where
  "search_resume dqf ds i c p q r cs =
     (let s = pg cs in
      case (nodes_reg s, edges_reg s) of
        (Some n, Some e) \<Rightarrow>
          (let t = mix_tables ds n e p; g = sql_store t in
           case qthreads cs i of
             None \<Rightarrow>
               if c \<in> closed_conns s then fail_task i cs
               else (case init_best g (dqf q) r of
                       Inl _ \<Rightarrow> fail_task i cs
                     | Inr cb \<Rightarrow> cs\<lparr>qthreads := (qthreads cs)(i \<mapsto> \<lparr>qpc = QRound (max_layer g), qst = \<lparr>currentBest = cb, cache = []\<rparr>\<rparr>)\<rparr>)
           | Some th \<Rightarrow>
               (case qpc th of
                  QDone \<Rightarrow>
                    (let ids = map fst (take 5 (currentBest (qst th))) in
                     if ids \<noteq> [] \<and> c \<in> closed_conns s then fail_task i cs
                     else cs\<lparr>pg := set_pc i (POut (map (fetch_text g) ids)) s, qthreads := (qthreads cs)(i := None)\<rparr>)
                | QFail _ \<Rightarrow> fail_task i cs
                | _ \<Rightarrow>
                    if posts_query th \<and> c \<in> closed_conns s then fail_task i cs
                    else (let (tmp', th') = qstep t (dqf q) 20 (temps cs c, th)
                          in cs\<lparr>temps := (temps cs)(c := tmp'), qthreads := (qthreads cs)(i \<mapsto> th')\<rparr>)))
      | _ \<Rightarrow> fail_task i cs)"

text \<open>One event: the resumption of a search task is a query; anything else is the page's.\<close>

fun qpage_step :: "'v query_dist \<Rightarrow> (string \<Rightarrow> 'v tables) \<Rightarrow> event \<Rightarrow> 'v qpage \<Rightarrow> 'v qpage option" where
  "qpage_step dqf ds (Resume i r) cs =
     (if i < length (tasks (pg cs)) then
        (case pc (tasks (pg cs) ! i) of
           PSearch c p q \<Rightarrow> Some (search_resume dqf ds i c p q r cs)
         | _ \<Rightarrow> map_option (\<lambda>s. cs\<lparr>pg := s\<rparr>) (resume (dq_engine dqf) ds i r (pg cs)))
      else None)"
| "qpage_step dqf ds e cs = map_option (\<lambda>s. cs\<lparr>pg := s\<rparr>) (page_step (dq_engine dqf) ds e (pg cs))"

fun qpage_run :: "'v query_dist \<Rightarrow> (string \<Rightarrow> 'v tables) \<Rightarrow> event list \<Rightarrow> 'v qpage \<Rightarrow> 'v qpage option" where
  "qpage_run dqf ds [] cs = Some cs"
| "qpage_run dqf ds (e # es) cs = (case qpage_step dqf ds e cs of None \<Rightarrow> None | Some cs' \<Rightarrow> qpage_run dqf ds es cs')"

text \<open>A page whose connections hold no temporary table and whose searches have no thread.\<close>

definition qpage_of :: "page \<Rightarrow> 'v qpage" where
  "qpage_of s = \<lparr>pg = s, temps = (\<lambda>_. []), qthreads = (\<lambda>_. None)\<rparr>"

text \<open>A thread that has returned or thrown: \<open>qstep\<close> leaves it unchanged.\<close>

definition final_pc :: "'v query_pc \<Rightarrow> bool" where
  "final_pc p = (case p of QDone \<Rightarrow> True | QFail _ \<Rightarrow> True | _ \<Rightarrow> False)"

text \<open>
  A schedule of two threads in which every thread resumed has not yet finished, so that
  each resumption is a query step.
\<close>

fun sched_live :: "'v tables \<Rightarrow> ('v \<Rightarrow> real result) \<Rightarrow> ('v \<Rightarrow> real result) \<Rightarrow> nat \<Rightarrow> bool list \<Rightarrow>
    temp_table \<times> 'v qthread \<times> 'v qthread \<Rightarrow> bool" where
  "sched_live t da db ef [] x = True"
| "sched_live t da db ef (True # sel) (tmp, a, b) =
     (\<not> final_pc (qpc a) \<and> (let (tmp', a') = qstep t da ef (tmp, a) in sched_live t da db ef sel (tmp', a', b)))"
| "sched_live t da db ef (False # sel) (tmp, a, b) =
     (\<not> final_pc (qpc b) \<and> (let (tmp', b') = qstep t db ef (tmp, b) in sched_live t da db ef sel (tmp', a, b')))"

text \<open>The events of a schedule: \<open>True\<close> resumes task \<open>a\<close>, \<open>False\<close> task \<open>b\<close>.\<close>

definition sched_events :: "nat \<Rightarrow> nat \<Rightarrow> nat \<Rightarrow> nat \<Rightarrow> bool list \<Rightarrow> event list" where
  "sched_events a b ra rb sel = map (\<lambda>x. if x then Resume a ra else Resume b rb) sel"

section \<open>Lemmas\<close>

lemma qpage_run_append:
  "qpage_run dqf ds (es1 @ es2) cs = (case qpage_run dqf ds es1 cs of None \<Rightarrow> None | Some cs1 \<Rightarrow> qpage_run dqf ds es2 cs1)"
  by (induction es1 arbitrary: cs) (auto split: option.splits)

lemma qstep_final: "final_pc (qpc th) \<Longrightarrow> qstep t dq ef (tmp, th) = (tmp, th)"
  by (auto simp: final_pc_def Let_def split: query_pc.splits)

lemma funpow_qstep_final:
  "final_pc (qpc (snd ((qstep t dq ef ^^ m) x))) \<Longrightarrow> m \<le> n \<Longrightarrow> (qstep t dq ef ^^ n) x = (qstep t dq ef ^^ m) x"
proof (induction n)
  case 0
  then show ?case by simp
next
  case (Suc n)
  show ?case
  proof (cases "m = Suc n")
    case False
    with Suc have eq: "(qstep t dq ef ^^ n) x = (qstep t dq ef ^^ m) x" by simp
    obtain tmp th where "(qstep t dq ef ^^ m) x = (tmp, th)" by fastforce
    with eq Suc.prems(1) show ?thesis by (simp add: qstep_final del: qstep.simps)
  qed simp
qed

lemma replicate_Suc_snoc: "replicate (Suc m) x = replicate m x @ [x]"
  by (simp add: replicate_append_same)

lemma search_best_max_layer:
  "search_best g dq ef r =
     (case init_best g dq r of
        Inl e \<Rightarrow> Some (Inl e)
      | Inr cb \<Rightarrow> bind_outcome (descend g dq ef (max_layer g) \<lparr>currentBest = cb, cache = []\<rparr>)
                   (\<lambda>st. Some (Inr (currentBest st))))"
  unfolding search_best_def max_layer_def Let_def by (cases "0 < count_nodes g") simp_all

text \<open>One resumption of a search whose thread has not finished is one query step.\<close>

lemma qpage_step_query:
  assumes "i < length (tasks (pg cs))" "pc (tasks (pg cs) ! i) = PSearch c p q"
    and "nodes_reg (pg cs) = Some n" "edges_reg (pg cs) = Some e" "c \<notin> closed_conns (pg cs)"
    and "qthreads cs i = Some th" "\<not> final_pc (qpc th)"
    and "qstep (mix_tables ds n e p) (dqf q) 20 (temps cs c, th) = (tmp', th')"
  shows "qpage_step dqf ds (Resume i r) cs = Some (cs\<lparr>temps := (temps cs)(c := tmp'), qthreads := (qthreads cs)(i \<mapsto> th')\<rparr>)"
  using assms by (auto simp: search_resume_def final_pc_def simp del: qstep.simps split: query_pc.splits)

text \<open>While its thread has not finished, each resumption of a search is one query step.\<close>

lemma qpage_run_qsteps:
  assumes "i < length (tasks (pg cs))" "pc (tasks (pg cs) ! i) = PSearch c p q"
    and "nodes_reg (pg cs) = Some n" "edges_reg (pg cs) = Some e" "c \<notin> closed_conns (pg cs)"
    and "qthreads cs i = Some th0"
    and "\<forall>j < m. \<not> final_pc (qpc (snd ((qstep (mix_tables ds n e p) (dqf q) 20 ^^ j) (temps cs c, th0))))"
  shows "qpage_run dqf ds (replicate m (Resume i r)) cs =
           Some (cs\<lparr>temps := (temps cs)(c := fst ((qstep (mix_tables ds n e p) (dqf q) 20 ^^ m) (temps cs c, th0))),
                    qthreads := (qthreads cs)(i \<mapsto> snd ((qstep (mix_tables ds n e p) (dqf q) 20 ^^ m) (temps cs c, th0)))\<rparr>)"
  using assms(7)
proof (induction m)
  case 0
  show ?case using assms(6) by (simp add: fun_upd_idem)
next
  case (Suc m)
  let ?f = "qstep (mix_tables ds n e p) (dqf q) 20"
  obtain tmp th where x: "(?f ^^ m) (temps cs c, th0) = (tmp, th)" by fastforce
  from Suc.prems x have nf: "\<not> final_pc (qpc th)" by (metis less_Suc_eq snd_conv)
  from Suc have run: "qpage_run dqf ds (replicate m (Resume i r)) cs =
           Some (cs\<lparr>temps := (temps cs)(c := tmp), qthreads := (qthreads cs)(i \<mapsto> th)\<rparr>)"
    using x by (simp add: fun_upd_def)
  obtain tmp' th' where x': "?f (tmp, th) = (tmp', th')" by fastforce
  have step: "qpage_step dqf ds (Resume i r) (cs\<lparr>temps := (temps cs)(c := tmp), qthreads := (qthreads cs)(i \<mapsto> th)\<rparr>) =
          Some (cs\<lparr>temps := (temps cs)(c := tmp'), qthreads := (qthreads cs)(i \<mapsto> th')\<rparr>)"
    using qpage_step_query [of i "cs\<lparr>temps := (temps cs)(c := tmp), qthreads := (qthreads cs)(i \<mapsto> th)\<rparr>"] assms(1-5) nf x'
    by simp
  have "qpage_run dqf ds (replicate (Suc m) (Resume i r)) cs = qpage_run dqf ds (replicate m (Resume i r) @ [Resume i r]) cs"
    by (simp only: replicate_Suc_snoc)
  also have "\<dots> = Some (cs\<lparr>temps := (temps cs)(c := tmp'), qthreads := (qthreads cs)(i \<mapsto> th')\<rparr>)"
    using run step by (simp add: qpage_run_append del: qpage_step.simps)
  finally have "qpage_run dqf ds (replicate (Suc m) (Resume i r)) cs =
      Some (cs\<lparr>temps := (temps cs)(c := tmp'), qthreads := (qthreads cs)(i \<mapsto> th')\<rparr>)" .
  moreover have "(?f ^^ Suc m) (temps cs c, th0) = (tmp', th')" using x x' by (simp del: qstep.simps)
  ultimately show ?case by (simp only: fst_conv snd_conv)
qed

lemma first_final:
  assumes "final_pc (qpc (snd ((qstep t dq ef ^^ n) x)))"
  obtains m where "m \<le> n" "final_pc (qpc (snd ((qstep t dq ef ^^ m) x)))"
    "\<forall>j < m. \<not> final_pc (qpc (snd ((qstep t dq ef ^^ j) x)))"
proof -
  from assms obtain m where m: "final_pc (qpc (snd ((qstep t dq ef ^^ m) x)))"
    "\<forall>j < m. \<not> final_pc (qpc (snd ((qstep t dq ef ^^ j) x)))"
    using exists_least_iff [of "\<lambda>m. final_pc (qpc (snd ((qstep t dq ef ^^ m) x)))"] by blast
  with assms have "m \<le> n" by (meson not_le)
  with m that show ?thesis by blast
qed

lemma qpage_run_Suc:
  "qpage_step dqf ds e cs = Some cs1 \<Longrightarrow> qpage_run dqf ds (replicate (Suc m) e) cs = qpage_run dqf ds (replicate m e) cs1"
  by (simp del: qpage_step.simps)

lemma qpage_run_snoc:
  "qpage_run dqf ds (replicate m e) cs = Some cs1 \<Longrightarrow> qpage_step dqf ds e cs1 = Some cs2 \<Longrightarrow>
     qpage_run dqf ds (replicate (Suc m) e) cs = Some cs2"
  by (simp only: replicate_Suc_snoc qpage_run_append) (simp del: qpage_step.simps)

lemma dq_engine_unfold:
  "dq_engine dqf t q k ef r =
     (case init_best (sql_store t) (dqf q) r of
        Inl e \<Rightarrow> Some (Inl e)
      | Inr cb \<Rightarrow> (case descend (sql_store t) (dqf q) ef (max_layer (sql_store t)) \<lparr>currentBest = cb, cache = []\<rparr> of
                   None \<Rightarrow> None
                 | Some (Inl e) \<Rightarrow> Some (Inl e)
                 | Some (Inr st) \<Rightarrow> Some (Inr (map (fetch_text (sql_store t)) (map fst (take k (currentBest st)))))))"
  by (simp add: dq_engine_def search_ids_def search_best_max_layer bind_outcome_def
      split: sum.split option.split)

text \<open>
  The query-level page refines the one-step page. A search that runs alone,
  resumed until it settles, ends in exactly the page that the one-step search of
  Session gives: the same result displayed next, or the same failure. The only
  exception is a search that never returns.
\<close>

theorem qpage_search_alone:
  fixes cs :: "'v qpage"
  assumes i: "i < length (tasks (pg cs))" "pc (tasks (pg cs) ! i) = PSearch c p q" "qthreads cs i = None"
    and nh: "pc (tasks (search_queries (dq_engine dqf) ds i c p q r (pg cs)) ! i) \<noteq> Hung"
  shows "\<exists>m cs'. qpage_run dqf ds (replicate m (Resume i r)) cs = Some cs' \<and>
           pg cs' = search_queries (dq_engine dqf) ds i c p q r (pg cs)"
proof (cases "\<exists>n e. nodes_reg (pg cs) = Some n \<and> edges_reg (pg cs) = Some e \<and> c \<notin> closed_conns (pg cs)")
  case False
  then have "qpage_run dqf ds (replicate 1 (Resume i r)) cs = Some (fail_task i cs)"
    using i by (auto simp: search_resume_def Let_def split: option.split)
  moreover have "pg (fail_task i cs) = search_queries (dq_engine dqf) ds i c p q r (pg cs)"
    using False by (auto simp: fail_task_def search_queries_def split: option.split)
  ultimately show ?thesis by blast
next
  case True
  then obtain n e where reg: "nodes_reg (pg cs) = Some n" "edges_reg (pg cs) = Some e" "c \<notin> closed_conns (pg cs)"
    by blast
  define t where "t = mix_tables ds n e p"
  let ?g = "sql_store t" and ?f = "qstep t (dqf q) 20"
  have sq: "search_queries (dq_engine dqf) ds i c p q r (pg cs) =
              (case dq_engine dqf t q 5 20 r of None \<Rightarrow> set_pc i Hung (pg cs)
               | Some (Inl _) \<Rightarrow> set_pc i Failed (pg cs) | Some (Inr out) \<Rightarrow> set_pc i (POut out) (pg cs))"
    using reg by (simp add: search_queries_def t_def)
  show ?thesis
  proof (cases "init_best ?g (dqf q) r")
    case (Inl err)
    then have "qpage_run dqf ds (replicate 1 (Resume i r)) cs = Some (fail_task i cs)"
      using i reg by (simp add: search_resume_def t_def Let_def)
    moreover have "pg (fail_task i cs) = search_queries (dq_engine dqf) ds i c p q r (pg cs)"
      using Inl by (simp add: sq fail_task_def dq_engine_unfold)
    ultimately show ?thesis by blast
  next
    case (Inr cb)
    define th0 :: "'v qthread" where "th0 = \<lparr>qpc = QRound (max_layer ?g), qst = \<lparr>currentBest = cb, cache = []\<rparr>\<rparr>"
    define cs1 where "cs1 = cs\<lparr>qthreads := (qthreads cs)(i \<mapsto> th0)\<rparr>"
    have s1: "qpage_step dqf ds (Resume i r) cs = Some cs1"
      using i reg Inr by (simp add: search_resume_def t_def cs1_def th0_def Let_def)
    obtain res where d: "descend ?g (dqf q) 20 (max_layer ?g) \<lparr>currentBest = cb, cache = []\<rparr> = Some res"
      using nh Inr i(1) by (cases "descend ?g (dqf q) 20 (max_layer ?g) \<lparr>currentBest = cb, cache = []\<rparr>")
        (simp_all add: sq dq_engine_unfold)
    from qsteps_descend_run [OF d, of "temps cs c"] obtain N tmp' th where
      N: "(?f ^^ N) (temps cs c, th0) = (tmp', th)" "outcome_pc res th" by (auto simp: th0_def)
    then have "final_pc (qpc (snd ((?f ^^ N) (temps cs c, th0))))"
      by (auto simp: outcome_pc_def final_pc_def split: sum.splits)
    then obtain m where m: "m \<le> N" "final_pc (qpc (snd ((?f ^^ m) (temps cs c, th0))))"
      "\<forall>j < m. \<not> final_pc (qpc (snd ((?f ^^ j) (temps cs c, th0))))" by (rule first_final)
    have Nm: "(?f ^^ m) (temps cs c, th0) = (tmp', th)"
      using funpow_qstep_final [OF m(2,1)] N(1) by simp
    define cs2 where "cs2 = cs1\<lparr>temps := (temps cs1)(c := tmp'), qthreads := (qthreads cs1)(i \<mapsto> th)\<rparr>"
    have run2: "qpage_run dqf ds (replicate m (Resume i r)) cs1 = Some cs2"
      using qpage_run_qsteps [of i cs1 c p q n e th0 m ds dqf r] i reg m(3) Nm
      by (simp add: cs1_def cs2_def t_def)
    have last: "qpage_step dqf ds (Resume i r) cs2 = Some (cs2\<lparr>pg := search_queries (dq_engine dqf) ds i c p q r (pg cs),
                   qthreads := (qthreads cs2)(i := None)\<rparr>)"
    proof (cases res)
      case (Inl err)
      with N(2) have "qpc th = QFail err" by (simp add: outcome_pc_def)
      with i reg Inl Inr d show ?thesis
        by (simp add: search_resume_def cs2_def cs1_def t_def fail_task_def sq dq_engine_unfold)
    next
      case (Inr st')
      with N(2) have "th = \<lparr>qpc = QDone, qst = st'\<rparr>" by (simp add: outcome_pc_def)
      with i reg Inr \<open>init_best ?g (dqf q) r = Inr cb\<close> d show ?thesis
        by (simp add: search_resume_def cs2_def cs1_def t_def sq dq_engine_unfold Let_def)
    qed
    have "qpage_run dqf ds (replicate (Suc (Suc m)) (Resume i r)) cs = Some (cs2\<lparr>pg := search_queries (dq_engine dqf) ds i c p q r (pg cs),
                   qthreads := (qthreads cs2)(i := None)\<rparr>)"
      unfolding qpage_run_Suc [OF s1] by (rule qpage_run_snoc [OF run2 last])
    moreover have "pg (cs2\<lparr>pg := search_queries (dq_engine dqf) ds i c p q r (pg cs),
                   qthreads := (qthreads cs2)(i := None)\<rparr>) = search_queries (dq_engine dqf) ds i c p q r (pg cs)"
      by simp
    ultimately show ?thesis by blast
  qed
qed

text \<open>
  Two searches on one connection and one path, resumed in the order of a schedule,
  compute exactly \<open>qschedule\<close> of Queries on the connection's table.
\<close>

lemma qpage_run_qschedule:
  assumes "a \<noteq> b" "a < length (tasks s)" "b < length (tasks s)"
    and "pc (tasks s ! a) = PSearch c p qa" "pc (tasks s ! b) = PSearch c p qb"
    and "nodes_reg s = Some n" "edges_reg s = Some e" "c \<notin> closed_conns s"
    and "pg cs = s" "qthreads cs a = Some tha" "qthreads cs b = Some thb"
    and "sched_live (mix_tables ds n e p) (dqf qa) (dqf qb) 20 sel (temps cs c, tha, thb)"
    and "qschedule (mix_tables ds n e p) (dqf qa) (dqf qb) 20 sel (temps cs c, tha, thb) = (tmp', tha', thb')"
  shows "qpage_run dqf ds (sched_events a b ra rb sel) cs =
           Some (cs\<lparr>temps := (temps cs)(c := tmp'), qthreads := (qthreads cs)(a \<mapsto> tha', b \<mapsto> thb')\<rparr>)"
  using assms(9-13)
proof (induction sel arbitrary: cs tha thb)
  case Nil
  then show ?case by (simp add: sched_events_def fun_upd_idem)
next
  case (Cons x sel)
  let ?t = "mix_tables ds n e p"
  show ?case
  proof (cases x)
    case True
    obtain tmp1 a1 where q: "qstep ?t (dqf qa) 20 (temps cs c, tha) = (tmp1, a1)" by fastforce
    let ?cs1 = "cs\<lparr>temps := (temps cs)(c := tmp1), qthreads := (qthreads cs)(a \<mapsto> a1)\<rparr>"
    have step: "qpage_step dqf ds (Resume a ra) cs = Some ?cs1"
      by (rule qpage_step_query [where th = tha]) (use assms(2,4,6-8) Cons.prems True q in \<open>auto simp del: qstep.simps\<close>)
    have "qpage_run dqf ds (sched_events a b ra rb sel) ?cs1 =
            Some (?cs1\<lparr>temps := (temps ?cs1)(c := tmp'), qthreads := (qthreads ?cs1)(a \<mapsto> tha', b \<mapsto> thb')\<rparr>)"
      using Cons.IH [of ?cs1 a1 thb] Cons.prems True q assms(1) by (simp add: fun_eq_iff del: qstep.simps)
    with step True show ?thesis by (simp add: sched_events_def fun_eq_iff del: qpage_step.simps)
  next
    case False
    obtain tmp1 b1 where q: "qstep ?t (dqf qb) 20 (temps cs c, thb) = (tmp1, b1)" by fastforce
    let ?cs1 = "cs\<lparr>temps := (temps cs)(c := tmp1), qthreads := (qthreads cs)(b \<mapsto> b1)\<rparr>"
    have step: "qpage_step dqf ds (Resume b rb) cs = Some ?cs1"
      by (rule qpage_step_query [where th = thb]) (use assms(3,5-8) Cons.prems False q in \<open>auto simp del: qstep.simps\<close>)
    have "qpage_run dqf ds (sched_events a b ra rb sel) ?cs1 =
            Some (?cs1\<lparr>temps := (temps ?cs1)(c := tmp'), qthreads := (qthreads ?cs1)(a \<mapsto> tha', b \<mapsto> thb')\<rparr>)"
      using Cons.IH [of ?cs1 tha b1] Cons.prems False q assms(1) by (simp add: fun_eq_iff del: qstep.simps)
    with step False assms(1) show ?thesis by (simp add: sched_events_def fun_eq_iff del: qpage_step.simps)
  qed
qed

end
