(* ===== verification/Rejections.thy ===== *)
theory Rejections
  imports Session
begin

text \<open>
  Rejected promises in the page of Session. Every \<^verbatim>\<open>await\<close> of the page can reject:
  the \<^verbatim>\<open>fetch\<close> of a parquet file (a network error), \<^verbatim>\<open>db.connect()\<close>,
  \<^verbatim>\<open>registerFileBuffer\<close>, \<^verbatim>\<open>conn.close()\<close>, the extractor, or a query.
  No function of the page catches: the rejection propagates through \<^verbatim>\<open>loadIndex\<close>
  and \<^verbatim>\<open>performSearch\<close> to the listener, which skips its
  \<^verbatim>\<open>search.disabled = false\<close>. The task ends \<open>Failed\<close>, and the page keeps every
  global it had assigned before the rejected \<^verbatim>\<open>await\<close>
  (\<^verbatim>\<open>src/scripts/vectordb_utils.js\<close> lines 198--250).

  The events are the session's events and \<open>Reject i\<close>, the rejection of the promise
  task \<open>i\<close> awaits. The theorems show what the page is left with: after a failed
  \<^verbatim>\<open>fetch\<close> the new path is cached with the old index registered, and after a
  failed \<^verbatim>\<open>db.connect()\<close> the closed connection stays current for good.
\<close>

section \<open>Rejections\<close>

text \<open>An event of the page, or the rejection of the promise a task awaits.\<close>

datatype page_event = Ev event | Reject nat

text \<open>
  A task rejects only while it awaits a promise. It ends \<open>Failed\<close>; the globals it
  assigned before the rejected \<^verbatim>\<open>await\<close> stay assigned.
\<close>

fun page_step_r :: "'v engine \<Rightarrow> (string \<Rightarrow> 'v tables) \<Rightarrow> page_event \<Rightarrow> page \<Rightarrow> page option" where
  "page_step_r eng ds (Ev e) s = page_step eng ds e s"
| "page_step_r eng ds (Reject i) s =
     (if i < length (tasks s) \<and> \<not> finished (pc (tasks s ! i)) then Some (set_pc i Failed s) else None)"

fun page_run_r :: "'v engine \<Rightarrow> (string \<Rightarrow> 'v tables) \<Rightarrow> page_event list \<Rightarrow> page \<Rightarrow> page option" where
  "page_run_r eng ds [] s = Some s"
| "page_run_r eng ds (e # es) s = (case page_step_r eng ds e s of None \<Rightarrow> None | Some s' \<Rightarrow> page_run_r eng ds es s')"

text \<open>The events that assign \<^verbatim>\<open>path.value\<close>, the only ones that can start a reload.\<close>

definition path_event :: "page_event \<Rightarrow> bool" where
  "path_event e = (case e of Ev (SetPath _) \<Rightarrow> True | Ev ClickBlogs \<Rightarrow> True | Ev ClickFrankenstein \<Rightarrow> True
                   | Ev ClickShakespeare \<Rightarrow> True | _ \<Rightarrow> False)"

text \<open>
  A page stuck on the closed connection \<open>c\<close>: its path is cached, \<open>c\<close> is current
  and closed, and every task is finished, embedding, or searching on a closed connection.
\<close>

definition broken :: "conn_id \<Rightarrow> page \<Rightarrow> bool" where
  "broken c s \<longleftrightarrow> path_value s = cachedPath s \<and> conn s = Some c \<and> c \<in> closed_conns s \<and>
     (\<forall>t \<in> set (tasks s). finished (pc t) \<or> (\<exists>q. pc t = PEmbed q) \<or>
        (\<exists>c' p q. pc t = PSearch c' p q \<and> c' \<in> closed_conns s))"

section \<open>Lemmas\<close>

lemma page_run_r_append:
  "page_run_r eng ds (es1 @ es2) s = (case page_run_r eng ds es1 s of None \<Rightarrow> None | Some s1 \<Rightarrow> page_run_r eng ds es2 s1)"
  by (induction es1 arbitrary: s) (auto split: option.splits)

lemma page_run_r_Ev:
  "page_run_r eng ds (map Ev es @ rest) s = (case page_run eng ds es s of None \<Rightarrow> None | Some s' \<Rightarrow> page_run_r eng ds rest s')"
  by (induction es arbitrary: s) (auto split: option.splits)

lemma page_run_r_map_Ev: "page_run_r eng ds (map Ev es) s = page_run eng ds es s"
  using page_run_r_Ev [of eng ds es "[]" s] by (simp split: option.split)

lemma broken_set_pc:
  assumes "broken c s" "finished p \<or> (\<exists>c' p' q. p = PSearch c' p' q \<and> c' \<in> closed_conns s)"
  shows "broken c (set_pc i p s)"
proof -
  have "set (tasks (set_pc i p s)) \<subseteq> insert ((tasks s ! i)\<lparr>pc := p\<rparr>) (set (tasks s))"
    by (simp add: set_pc_def set_update_subset_insert)
  moreover have "closed_conns (set_pc i p s) = closed_conns s" by simp
  ultimately show ?thesis using assms unfolding broken_def
    by (metis (no_types, lifting) insert_iff set_pc_simps(1,5,6) subsetD task.select_convs(1) task.surjective task.update_convs(1))
qed

lemma broken_new_task: "broken c s \<Longrightarrow> broken c (performSearch r s)"
  by (auto simp: broken_def performSearch_def new_task_def)

lemma broken_upd [simp]:
  "broken c (s\<lparr>text_value := x\<rparr>) = broken c s" "broken c (s\<lparr>disabled := b\<rparr>) = broken c s"
  "broken c (s\<lparr>timers := ts\<rparr>) = broken c s" "broken c (s\<lparr>timeoutId := t\<rparr>) = broken c s"
  "broken c (s\<lparr>next_timer := n\<rparr>) = broken c s" "broken c (s\<lparr>output_html := h\<rparr>) = broken c s"
  "broken c (s\<lparr>instant := i\<rparr>) = broken c s"
  by (simp_all add: broken_def)

lemma broken_resume:
  assumes "broken c s" "i < length (tasks s)" "resume eng ds i r s = Some s'"
  shows "broken c s' \<and> output_html s' = output_html s"
proof -
  have t: "tasks s ! i \<in> set (tasks s)" using assms(2) by simp
  consider "finished (pc (tasks s ! i))" | q where "pc (tasks s ! i) = PEmbed q"
    | c' p q where "pc (tasks s ! i) = PSearch c' p q" "c' \<in> closed_conns s"
    using assms(1) t by (auto simp: broken_def)
  then show ?thesis
  proof cases
    case 1
    with assms(3) show ?thesis by (auto simp: resume_def finished_def split: task_pc.splits)
  next
    case (2 q)
    have "conn s = Some c" "path_value s = cachedPath s" "c \<in> closed_conns s" using assms(1) by (simp_all add: broken_def)
    with 2 assms show ?thesis by (auto simp: resume_def to_search_def intro!: broken_set_pc)
  next
    case (3 c' p q)
    with assms show ?thesis
      by (auto simp: resume_def search_queries_def finished_def intro!: broken_set_pc split: option.splits)
  qed
qed

lemma broken_step:
  assumes "broken c s" "page_step_r eng ds e s = Some s'" "\<not> path_event e"
  shows "broken c s' \<and> output_html s' = output_html s"
proof (cases e)
  case (Reject i)
  with assms show ?thesis by (auto simp: finished_def intro!: broken_set_pc split: if_splits)
next
  case (Ev ev)
  show ?thesis
  proof (cases ev)
    case (Resume i r)
    with Ev assms broken_resume [of c s i eng ds r s'] show ?thesis by (auto split: if_splits)
  next
    case (Input str)
    with Ev assms show ?thesis by (auto simp: input_handler_def debouncedInstantSearch_def setTimeout_def clearTimeout_def Let_def split: option.splits)
  next
    case (FireTimer t)
    with Ev assms(2) have s': "s' = performSearch False (s\<lparr>timers := remove1 t (timers s)\<rparr>)"
      by (simp split: if_splits)
    have "broken c s'" unfolding s' by (rule broken_new_task) (use assms(1) in simp)
    moreover have "output_html s' = output_html s" unfolding s' by (simp add: performSearch_def new_task_def)
    ultimately show ?thesis by simp
  next
    case ClickSearch
    with Ev assms(2) have s': "s' = performSearch True (s\<lparr>disabled := True\<rparr>)"
      by (simp split: if_splits)
    have "broken c s'" unfolding s' by (rule broken_new_task) (use assms(1) in simp)
    moreover have "output_html s' = output_html s" unfolding s' by (simp add: performSearch_def new_task_def)
    ultimately show ?thesis by simp
  qed (use Ev assms in \<open>auto simp: path_event_def\<close>)
qed

lemma conn_ok_step_r:
  assumes "page_step_r eng ds e s = Some s'" "conn_ok s"
  shows "conn_ok s'"
proof (cases e)
  case (Ev ev)
  with assms show ?thesis by (auto intro: conn_ok_step)
next
  case (Reject i)
  with assms show ?thesis by (auto intro: conn_ok_set_pc split: if_splits)
qed

lemma conn_ok_run_r: "page_run_r eng ds es s = Some s' \<Longrightarrow> conn_ok s \<Longrightarrow> conn_ok s'"
  by (induction es arbitrary: s) (auto intro: conn_ok_step_r split: option.splits)

text \<open>
  C9: whatever the user does and whichever awaited promises reject, if the current
  \<^verbatim>\<open>conn\<close> of a page is closed, some search is between its \<^verbatim>\<open>conn.close()\<close> and
  the \<^verbatim>\<open>db.connect()\<close> that replaces it, or some call has been rejected. A closed
  connection is never left current by a call that completed.
\<close>

theorem closed_conn_needs_reload_or_failure:
  assumes "page_run_r eng ds es (init_page p str d0) = Some s" "conn s = Some c" "c \<in> closed_conns s"
  shows "\<exists>i < length (tasks s). reloading (pc (tasks s ! i)) \<or> pc (tasks s ! i) = Failed"
proof -
  have "conn_ok (init_page p str d0)"
    by (simp add: conn_ok_def init_page_def performSearch_def new_task_def)
  with assms(1) have "conn_ok s" by (rule conn_ok_run_r)
  with assms(2,3) show ?thesis by (simp add: conn_ok_def reloading_or_failed_def)
qed

text \<open>
  C25: a failed reconnect breaks the page for good. Suppose a search closed the
  current connection, and the \<^verbatim>\<open>db.connect()\<close> of the reload then rejected.
  The closed connection stays current. Until the path is changed, no event opens
  another connection. Every later search is handed the closed connection and fails,
  and the output never changes.
\<close>

theorem failed_reconnect_breaks_page:
  assumes "broken c s" "page_run_r eng ds es s = Some s'" "\<forall>e \<in> set es. \<not> path_event e"
  shows "conn s' = Some c \<and> c \<in> closed_conns s' \<and> output_html s' = output_html s \<and>
         (\<forall>t \<in> set (tasks s'). \<forall>out. pc t \<noteq> POut out)"
proof -
  have "broken c s' \<and> output_html s' = output_html s"
    using assms(2,3,1)
  proof (induction es arbitrary: s)
    case Nil
    then show ?case by simp
  next
    case (Cons e es)
    then obtain s1 where s1: "page_step_r eng ds e s = Some s1" and s2: "page_run_r eng ds es s1 = Some s'"
      by (auto split: option.splits)
    have "\<not> path_event e" "\<forall>e \<in> set es. \<not> path_event e" using Cons.prems(2) by simp_all
    from broken_step [OF Cons.prems(3) s1 this(1)] have "broken c s1" "output_html s1 = output_html s" by simp_all
    with Cons.IH [OF s2 \<open>\<forall>e \<in> set es. \<not> path_event e\<close>] show ?case by simp
  qed
  then have b: "broken c s'" and o: "output_html s' = output_html s" by simp_all
  have "pc t \<noteq> POut out" if "t \<in> set (tasks s')" for t out
  proof
    assume out: "pc t = POut out"
    from b that have "finished (pc t) \<or> (\<exists>q. pc t = PEmbed q) \<or> (\<exists>c' p q. pc t = PSearch c' p q \<and> c' \<in> closed_conns s')"
      unfolding broken_def by (rule bspec [OF conjunct2 [OF conjunct2 [OF conjunct2]]])
    with out show False by (simp add: finished_def)
  qed
  with b o show ?thesis by (simp add: broken_def)
qed

text \<open>
  C26: a failed fetch is never retried. A search for the new path \<open>p2\<close> caches
  \<open>p2\<close>, closes the connection and reconnects. The \<^verbatim>\<open>fetch\<close> of the node file then
  rejects. The page now has \<open>p2\<close> cached with the index of \<open>p\<close> still registered,
  so the next search does not reload. It searches \<open>p\<close>'s graph, reads \<open>p2\<close>'s
  documents by those ids, and displays them.
\<close>

theorem failed_fetch_mixes_datasets:
  assumes "p \<noteq> ''''" "eng (ds p) str 5 20 r = Some (Inr out0)" "p2 \<noteq> p"
    and "eng (mix_tables ds p p p2) q' 5 20 r = Some (Inr out)"
  shows "\<exists>s. page_run_r eng ds
            (map Ev (replicate 8 (Resume 0 r) @ [SetPath p2, Input q, FireTimer 0, Resume 1 r, Resume 1 r, Resume 1 r]) @
             Reject 1 # map Ev [Input q', FireTimer 1, Resume 2 r, Resume 2 r, Resume 2 r])
            (init_page p str d0) = Some s \<and>
         path_value s = p2 \<and> cachedPath s = p2 \<and> nodes_reg s = Some p \<and> edges_reg s = Some p \<and>
         output_html s = Some (render_output out)"
  unfolding page_run_r_Ev page_start_run [of p eng ds str r out0 _ d0, OF assms(1,2)]
  using assms by (simp add: page_run_r_map_Ev page_simps loaded_page_def finished_def Let_def)

end
