(* ===== verification/QuantizedPage.thy ===== *)
theory QuantizedPage
  imports Session
begin

text \<open>
  The quantized page, \<^verbatim>\<open>src/scripts/vectordb_utils_quantized.js\<close> lines 241--350.
  Its \<^verbatim>\<open>loadIndex\<close>, \<^verbatim>\<open>performSearch\<close>, \<^verbatim>\<open>debounce\<close>, listeners and top level
  are those of the plain page line for line, with three differences:
  \<^item> the files are \<^verbatim>\<open>nodes_quantized.parquet\<close>, \<^verbatim>\<open>edges_quantized.parquet\<close> and
    \<^verbatim>\<open>docs_quantized.parquet\<close>: the tables \<open>ds p\<close> of a path hold typed arrays;
  \<^item> the fetched bytes are registered through an \<^verbatim>\<open>Int8Array\<close> view of the same buffer;
  \<^item> \<^verbatim>\<open>searchWithSql\<close> is the quantized one (\<open>quantized_engine\<close>).
  So its events are Session's \<open>page_step\<close> with the quantized engine, and every theorem
  of Session stated for any engine holds of it.
\<close>

section \<open>The quantized page\<close>

definition quantized_page_step :: "(string \<Rightarrow> real list) \<Rightarrow> (string \<Rightarrow> typed_array tables) \<Rightarrow> event \<Rightarrow> page \<Rightarrow> page option" where
  "quantized_page_step encoder ds = page_step (quantized_engine encoder) ds"

fun quantized_page_run :: "(string \<Rightarrow> real list) \<Rightarrow> (string \<Rightarrow> typed_array tables) \<Rightarrow> event list \<Rightarrow> page \<Rightarrow> page option" where
  "quantized_page_run encoder ds [] s = Some s"
| "quantized_page_run encoder ds (e # es) s =
     (case quantized_page_step encoder ds e s of None \<Rightarrow> None | Some s' \<Rightarrow> quantized_page_run encoder ds es s')"

lemma quantized_page_run_eq: "quantized_page_run encoder ds es s = page_run (quantized_engine encoder) ds es s"
  by (induction es arbitrary: s) (simp_all add: quantized_page_step_def split: option.split)

text \<open>
  C34: both pages, left alone, load their index and display exactly the result of their
  \<^verbatim>\<open>searchWithSql\<close> on the dataset of their path. The plain page runs
  \<open>searchWithSql\<close>; the quantized page runs \<open>searchWithSql_q\<close> on the quantized tables.
  The result is for the HTML's query, with \<open>k = 5\<close>, \<open>ef = 20\<close> and the entry draw
  \<open>r\<close>. The button ends enabled.
\<close>

theorem pages_start_display_search:
  assumes "p \<noteq> ''''" "searchWithSql (sql_store (ds p)) (encoder str) 5 20 r = Some (Inr out)"
    and "searchWithSql_q (sql_store (dsq p)) (encoder str) 5 20 r = Some (Inr outq)"
  shows "(\<exists>s. page_run (plain_engine encoder) ds (replicate 8 (Resume 0 r)) (init_page p str d0) = Some s \<and>
           output_html s = Some (render_output out) \<and> \<not> disabled s \<and> nodes_reg s = Some p \<and>
           edges_reg s = Some p \<and> conn s = Some 0) \<and>
         (\<exists>s. quantized_page_run encoder dsq (replicate 8 (Resume 0 r)) (init_page p str d0) = Some s \<and>
           output_html s = Some (render_output outq) \<and> \<not> disabled s \<and> nodes_reg s = Some p \<and>
           edges_reg s = Some p \<and> conn s = Some 0)"
  using page_start [of p "plain_engine encoder" ds str r out d0]
    page_start [of p "quantized_engine encoder" dsq str r outq d0] assms
  by (simp add: quantized_page_run_eq plain_engine_def quantized_engine_def loaded_page_def)

end
