(* ===== verification/Spec2Isabelle.thy ===== *)
theory Spec2Isabelle
  imports Search_Props Session Queries PageQueries Rejections QuantizedPage
begin

text \<open>
  \<^bold>\<open>A verification library for portable-hnsw's search.\<close>

  The repository is a browser page (\<^verbatim>\<open>src/scripts/vectordb_utils.js\<close>, and its
  quantized copy \<^verbatim>\<open>src/scripts/vectordb_utils_quantized.js\<close>). It embeds a text
  query and searches a prebuilt HNSW graph stored as parquet tables, through DuckDB,
  with \<^verbatim>\<open>searchWithSql\<close>: a greedy, layer-descending beam search. Its parts and
  the theories that model them:

  \<^item> \<^bold>\<open>Prelude\<close>: the thrown errors (\<open>js_error\<close>), results \<open>js_error + 'a\<close>,
    outcomes (an outer \<open>option\<close>, \<open>None\<close> for a loop that does not return), their binds,
    and shared list, sorting and association-list lemmas.
  \<^item> \<^bold>\<open>Distance\<close> (DistanceMetric): both \<^verbatim>\<open>euclideanDistanceSquared\<close> functions.
    They share the \<^verbatim>\<open>for\<close> loop \<open>accumulate_loop\<close> (a \<^theory_text>\<open>function\<close> with a
    measure), which is proved equal to the reference sum \<open>sq_euclid\<close>. Also proved: the
    length error, the metric facts, and that the dequantising distance is the plain one
    divided by \<open>(2 ^ bits - 1)\<^sup>2\<close>, so it ranks candidates identically.
  \<^item> \<^bold>\<open>Quantize\<close> (QuantizationCodec): \<^verbatim>\<open>quantizeVector\<close>. Typed arrays are lists of
    \<open>8/16/32 word\<close>; a store is \<open>word_of_int\<close> (ToInt8/16/32, with \<open>NaN\<close> stored as
    0); a read is \<open>sint\<close>. Proved: no value wraps except at 8, 16 and 32 bits; at the
    default 8 bits the extremes wrap to \<open>-1\<close> and \<open>1\<close>; a constant vector becomes 0;
    elsewhere the dequantised value is within \<open>1 / (2 ^ bits - 1)\<close> of the normalised
    component.
  \<^item> \<^bold>\<open>GraphStore\<close>: the capability the search calls (\<open>graph_store\<close>: count, random
    entry row, neighbour query, document lookup) and its contract
    \<open>store_contract\<close>. The DuckDB queries are modelled over list tables
    (\<open>sql_store\<close>, with \<open>filtered_edges\<close> and \<open>join_nodes\<close>), and
    \<open>sql_store_contract\<close> proves that they implement the contract.
  \<^item> \<^bold>\<open>Search\<close> (CandidateCache and AnnSearchEngine): the body of \<^verbatim>\<open>searchWithSql\<close>,
    parameterised by the distance to the query \<open>dq\<close>.
    \<^item> The \<^verbatim>\<open>cache\<close> object is an association list keyed by \<open>js_key\<close>, the strings
      JavaScript makes of a node id or of an \<^verbatim>\<open>[id, distance]\<close> pair.
    \<^item> The neighbour loop is \<open>visit_neighbors\<close>, and one \<^verbatim>\<open>while (improved)\<close>
      iteration is \<open>expand_round\<close>. The \<^verbatim>\<open>while\<close> loop is \<open>layer_search\<close>, a
      \<^theory_text>\<open>partial_function (option)\<close>, and the layer loop is \<open>descend\<close>.
    \<^item> The whole search is \<open>search_best\<close>/\<open>search_ids\<close>, and the two exported
      variants are \<open>searchWithSql\<close> and \<open>searchWithSql_q\<close>.
    \<^item> The random entry row (\<^verbatim>\<open>ORDER BY RANDOM() LIMIT 1\<close>) is an argument \<open>r\<close>:
      the theorems hold for every draw.
  \<^item> \<^bold>\<open>Search_Props\<close>: the search invariants and the theorems over every store
    satisfying the contract:
    \<^item> the search returns; the proof is an induction on the number of uncached node
      ids, so no fuel bound is needed;
    \<^item> it fails only with a distance error on a table row;
    \<^item> the cache is a faithful store: a cached distance is found again, unchanged, and
      no other key moves;
    \<^item> its list has unique ids, ascending distances, at most \<open>max 1 ef\<close> entries, and
      true distances;
    \<^item> the returned ids are at most \<open>k\<close>, at most \<open>max 1 ef\<close>, and at most the
      node count;
    \<^item> with \<open>ef \<ge> 1\<close> it never ends farther than its entry point;
    \<^item> both variants raise nothing when the dimensions agree;
    \<^item> on an empty node table the result is empty, with no error;
    \<^item> over the SQL adapter, an entry node that no edge leaves (by the literal list
      \<open>id,distance\<close> the code builds) is the whole result for every \<open>ef\<close>, even
      \<open>ef = 0\<close>, because the seed list is never truncated.
  \<^item> \<^bold>\<open>Queries\<close>: the same rounds at the level of their SQL queries on a
    connection. \<open>qstep\<close> resumes a search once:
    \<^item> the \<^verbatim>\<open>CREATE TEMP TABLE filtered_edges\<close> replaces the connection's table;
    \<^item> the join reads the table the connection holds at that moment;
    \<^item> the visit, the sort and the truncation follow.
    Run alone, the steps reach exactly the result of \<open>descend\<close>; this is proved by
    the \<open>raw_induct\<close> rule of \<open>layer_search\<close> and induction on the layer. With
    \<open>qschedule\<close>, two searches share one connection.
  \<^item> \<^bold>\<open>Rejections\<close>: the session's events and \<open>Reject i\<close>, the rejection of the
    promise task \<open>i\<close> awaits (\<open>page_step_r\<close>). Nothing in the page catches, so the
    task fails with the globals it had already assigned. Proved: after a rejected
    reconnect the closed connection stays current and every later search on the path
    fails; a closed connection is current only while a search reconnects or after a
    rejection; after a rejected fetch the new path is cached with the old index, and the
    next search displays the old graph's ids in the new path's documents.
  \<^item> \<^bold>\<open>PageQueries\<close>: the composition of Session and Queries. The page's search
    tasks run query by query (\<open>search_resume\<close>): the first resumption runs the count
    and entry queries, the next ones \<open>qstep\<close> on the tables registered at that moment
    and on the connection's \<^verbatim>\<open>filtered_edges\<close> table (\<open>temps\<close>), the last the
    document queries. A search run alone ends in the page of the one-step model; two
    searches resumed in turn on one connection compute \<open>qschedule\<close>.
  \<^item> \<^bold>\<open>Session\<close> (SearchSession): the page code around the search
    (\<^verbatim>\<open>embed\<close>, \<^verbatim>\<open>loadIndex\<close>, \<^verbatim>\<open>performSearch\<close>, \<^verbatim>\<open>debounce\<close> and the
    five listeners), as an interleaving semantics.
    \<^item> The record \<open>page\<close> holds the DOM values, \<^verbatim>\<open>cachedPath\<close>, \<^verbatim>\<open>conn\<close>, the DuckDB
      connections and the registered files, the debounce timer, and the running async
      calls (\<open>task\<close>), each suspended at an \<^verbatim>\<open>await\<close> named by its \<open>task_pc\<close>.
    \<^item> \<open>page_step\<close> runs one event (typing, the path field, the instant-mode box, a
      timer, a click, or a promise resolving) up to the
      next \<^verbatim>\<open>await\<close>. \<open>page_run\<close> runs a sequence of events, and \<open>reachable\<close>
      (an \<^theory_text>\<open>inductive\<close>) is every page a scheduler can produce.
    \<^item> A search's graph queries are one step. It runs the engine above (\<open>plain_engine\<close>,
      \<open>quantized_engine\<close>) on the tables registered at that moment (\<open>mix_tables\<close>).
    \<^item> The invariants are proved by rule induction:
      \<^item> at most one debounce timer is pending, and a burst of typing starts one
        search, for the last text, when its last timer fires;
      \<^item> the current connection is closed only while a search is reconnecting (with
        rejections: or after a call failed, in Rejections);
      \<^item> typing starts no search while instant mode is off or the button disabled;
      \<^item> after the blogs link typing starts no search until the box is re-checked or
        the Frankenstein link is followed;
      \<^item> a locked page stays locked under every event but the Frankenstein link.
    \<^item> The hazards are explicit runs from the initial page, for any engine:
      \<^item> a stale search overwrites a newer one;
      \<^item> a search is handed a closed connection;
      \<^item> a search mixes two datasets;
      \<^item> two interleaved loads register nodes and edges of different datasets;
      \<^item> connections leak;
      \<^item> a failed button search locks the page.
    \<^item> Progress: \<open>pc_rank\<close> counts the \<^verbatim>\<open>await\<close>s a call can still pass. Every
      resumption lowers it, so a call is resumed at most 10 times in any run, and, when
      the engine always returns, 10 resumptions settle it (Done or Failed) from any
      page.
    \<^item> The output: \<open>output_html\<close> is the string \<open>render_output\<close> builds, as
      \<^verbatim>\<open>output.innerHTML\<close> is. \<open>read_paragraphs\<close> reads it back: without markup
      in the documents this gives the results again; with markup one document can show
      as two (the text is not escaped).
    \<^item> The \<^verbatim>\<open>debounce\<close> closure is \<open>debouncedInstantSearch\<close>: clear the pending
      timer, set a new one.
    \<^item> The encoder and the HTML's initial values are parameters. The status texts are not
      modelled.
  \<^item> \<^bold>\<open>QuantizedPage\<close>: the quantized page (\<^verbatim>\<open>vectordb_utils_quantized.js\<close>
    lines 241--350). Its session code is the plain page's line for line apart from the
    parquet file names and the \<^verbatim>\<open>Int8Array\<close> view of the fetched bytes, so
    \<open>quantized_page_step\<close> is Session's \<open>page_step\<close> with \<open>quantized_engine\<close>, and
    every session theorem stated for any engine holds of it. Proved: each page's start
    displays exactly its own search (\<open>searchWithSql\<close> or \<open>searchWithSql_q\<close>) of its
    dataset.
  \<^item> This theory: concrete graphs evaluated by \<open>simp\<close>. They give the spec's
    four-node example for every entry point; small graphs and runs that exhibit four
    defects listed as findings (a literal-list clash, the admission test against the
    last pushed entry, a larger \<open>ef\<close> losing a neighbour, the temporary-table race
    between two searches); and the
    witnesses of the conditional theorems. It also holds two-node datasets per path
    and the witnesses of the session theorems.

  Numbers of the JavaScript code are \<open>real\<close>: floating-point rounding (of the sums, of
  \<^verbatim>\<open>Math.log2\<close>, of the quantizer) is not modelled, and the facts that depend on
  exact ties hold for reals only. The SQL result order of the neighbour join is a
  modelling choice of \<open>sql_store\<close> (edge by edge). Every general theorem is stated for
  any store satisfying the contract, so it holds for any order.

  Not modelled: the encoder pipeline (\<^verbatim>\<open>transformers.js\<close>, the function
  \<^verbatim>\<open>embed\<close>: its result is a parameter of the engines), DuckDB's set-up and the module
  imports (I/O with no state the search reads), the status texts, and the
  \<^verbatim>\<open>registerFileURL\<close> of \<^verbatim>\<open>docs.parquet\<close> (the document query reads the URL
  directly). Document lookups return \<open>None\<close> for an offset outside the table, which
  renders as \<^verbatim>\<open>undefined\<close>; DuckDB's error for a negative offset and a NULL text
  are not modelled. In Session the
  graph queries of one search are a single step; PageQueries refines that step into
  its queries, and its theorems show that the two agree for a search that runs alone
  and differ when two searches share a connection. The debounce wait (300 ms) is
  not modelled: any pending timer may fire next.
\<close>

section \<open>Concrete graphs\<close>

text \<open>The example of the spec: four nodes, all connected at layer 0, query \<open>[0, 0]\<close>.\<close>

definition spec_graph :: "real list tables" where
  "spec_graph =
     \<lparr>nodes_tbl = [(0, [0, 0]), (1, [1, 0]), (2, [0, 1]), (3, [5, 5])],
      edges_tbl = [(0, 1, 0), (0, 2, 0), (0, 3, 0), (1, 0, 0), (1, 2, 0), (1, 3, 0),
                   (2, 0, 0), (2, 1, 0), (2, 3, 0), (3, 0, 0), (3, 1, 0), (3, 2, 0)],
      docs_tbl = [''doc0'', ''doc1'', ''doc2'', ''doc3'']\<rparr>"

text \<open>
  Node 1 is an exact match of the query \<open>[0]\<close> and a layer-0 neighbour of the entry node
  0, whose distance is 1.
\<close>

definition literal_clash_graph :: "real list tables" where
  "literal_clash_graph =
     \<lparr>nodes_tbl = [(0, [1]), (1, [0])], edges_tbl = [(0, 1, 0), (1, 0, 0)],
      docs_tbl = [''far'', ''exact'']\<rparr>"

text \<open>
  Query \<open>[0]\<close>, beam width 3: node 10 (distance 1) reaches 11 (9) and 12 (16); node 11
  then reaches 13 (0) and 14 (4), in this order.
\<close>

definition last_pushed_graph :: "real list tables" where
  "last_pushed_graph =
     \<lparr>nodes_tbl = [(10, [1]), (11, [3]), (12, [4]), (13, [0]), (14, [2])],
      edges_tbl = [(10, 11, 0), (10, 12, 0), (11, 13, 0), (11, 14, 0)],
      docs_tbl = []\<rparr>"

definition single_node_graph :: "real list tables" where
  "single_node_graph = \<lparr>nodes_tbl = [(0, [1, 1])], edges_tbl = [], docs_tbl = [''only'']\<rparr>"

text \<open>A node whose vector does not have the query's length.\<close>

definition bad_dim_graph :: "real list tables" where
  "bad_dim_graph = \<lparr>nodes_tbl = [(0, [1])], edges_tbl = [], docs_tbl = []\<rparr>"


definition quantized_graph :: "typed_array tables" where
  "quantized_graph =
     \<lparr>nodes_tbl = [(0, Int8Array [1, 2]), (1, Int8Array [3, 4])], edges_tbl = [(0, 1, 0)],
      docs_tbl = [''q0'', ''q1'']\<rparr>"

text \<open>
  A page's datasets for the session runs: at every path two nodes joined both ways at
  layer 0, whose vectors are swapped at \<^verbatim>\<open>blogs\<close>; each path's documents are named
  after the path. The encoder maps the text \<open>ten\<close> to \<open>[10]\<close> and any other text to
  \<open>[0]\<close>.
\<close>

definition toy_encoder :: "string \<Rightarrow> real list" where
  "toy_encoder q = (if q = ''ten'' then [10] else [0])"

definition toy_ds :: "string \<Rightarrow> real list tables" where
  "toy_ds x = \<lparr>nodes_tbl = (if x = ''blogs'' then [(0, [10]), (1, [0])] else [(0, [0]), (1, [10])]),
                edges_tbl = [(0, 1, 0), (1, 0, 0)], docs_tbl = [x @ ''/doc0'', x @ ''/doc1'']\<rparr>"

text \<open>The quantized page's datasets: the toy graph with one-byte vectors.\<close>

definition toy_qds :: "string \<Rightarrow> typed_array tables" where
  "toy_qds x = \<lparr>nodes_tbl = [(0, Int8Array [0]), (1, Int8Array [10])],
                 edges_tbl = [(0, 1, 0), (1, 0, 0)], docs_tbl = [x @ ''/q0'', x @ ''/q1'']\<rparr>"

text \<open>A dataset with one node of the wrong dimension, and no edges.\<close>

definition mismatch_ds :: "string \<Rightarrow> real list tables" where
  "mismatch_ds x = \<lparr>nodes_tbl = [(0, [0]), (1, [1, 1])], edges_tbl = [], docs_tbl = [''d0'', ''d1'']\<rparr>"

text \<open>
  The spec's reference for recall (section 8): the exact \<open>k\<close> nearest node ids by brute
  force, ties in table order, and the number of them a result contains.
\<close>

definition exact_top_k :: "(int \<times> real list) list \<Rightarrow> real list \<Rightarrow> nat \<Rightarrow> int list" where
  "exact_top_k ns q k = map fst (take k (sort_key snd (map (\<lambda>(i, d). (i, sq_euclid d q)) ns)))"

definition recall :: "int list \<Rightarrow> int list \<Rightarrow> nat" where
  "recall ids exact = card (set ids \<inter> set exact)"

text \<open>
  Five nodes on a line, joined at layer 0 only, entered at node 2. For the query
  \<open>[6.5]\<close> the nearest nodes are 0 and 1.
\<close>

definition mono_graph :: "real list tables" where
  "mono_graph =
     \<lparr>nodes_tbl = [(0, [6]), (1, [5]), (2, [3]), (3, [1]), (4, [4])],
      edges_tbl = [(1, 0, 0), (1, 2, 0), (2, 3, 0), (2, 4, 0), (3, 0, 0), (4, 1, 0)],
      docs_tbl = []\<rparr>"

text \<open>
  Two components: nodes 0 and 1 joined both ways at layer 0, and node 2 alone. Three
  nodes give a top layer 1.
\<close>

definition race_graph :: "real list tables" where
  "race_graph = \<lparr>nodes_tbl = [(0, [0]), (1, [1]), (2, [5])], edges_tbl = [(0, 1, 0), (1, 0, 0)], docs_tbl = []\<rparr>"

text \<open>
  The race graph on every path, with documents, and an encoder giving \<open>[1/2]\<close> and
  \<open>[11/2]\<close> (the queries of the race above) for the texts \<^verbatim>\<open>near\<close> and \<^verbatim>\<open>far\<close>.
\<close>

definition race_ds :: "string \<Rightarrow> real list tables" where
  "race_ds x = \<lparr>nodes_tbl = [(0, [0]), (1, [1]), (2, [5])], edges_tbl = [(0, 1, 0), (1, 0, 0)],
                docs_tbl = [''d0'', ''d1'', ''d2'']\<rparr>"

definition race_encoder :: "string \<Rightarrow> real list" where
  "race_encoder q = (if q = ''far'' then [11 / 2] else [1 / 2])"

definition race_dist :: "real list query_dist" where
  "race_dist q d = euclideanDistanceSquared d (race_encoder q)"

text \<open>The two threads of the race at the top layer: the entry rows 0 and 2 with their distances.\<close>

definition race_A0 :: "real list qthread" where
  "race_A0 = \<lparr>qpc = QRound 1, qst = \<lparr>currentBest = [(0, 1 / 4)], cache = []\<rparr>\<rparr>"

definition race_B0 :: "real list qthread" where
  "race_B0 = \<lparr>qpc = QRound 1, qst = \<lparr>currentBest = [(2, 1 / 4)], cache = []\<rparr>\<rparr>"

section \<open>Runs\<close>

lemmas run_simps = search_ids_def search_best_def sql_store_def init_best_def
  floor_log2.simps layer_search.simps expand_round_def euclideanDistanceSquared_def accumulate_loop.simps
  not_expanded_def pair_key_def entry_has_layer_def filtered_edges_def join_nodes_def
  cached_distance_def admits_def

lemma spec_graph_run0:
  "r mod 4 = 0 \<Longrightarrow> search_best (sql_store spec_graph) (\<lambda>d. euclideanDistanceSquared d [0, 0]) 4 r =
     Some (Inr [(0, 0), (1, 1), (2, 1), (3, 50)])"
  by (simp add: run_simps spec_graph_def)

lemma spec_graph_run1:
  "r mod 4 = 1 \<Longrightarrow> search_best (sql_store spec_graph) (\<lambda>d. euclideanDistanceSquared d [0, 0]) 4 r =
     Some (Inr [(0, 0), (1, 1), (2, 1), (3, 50)])"
  by (simp add: run_simps spec_graph_def)

lemma spec_graph_run2:
  "r mod 4 = 2 \<Longrightarrow> search_best (sql_store spec_graph) (\<lambda>d. euclideanDistanceSquared d [0, 0]) 4 r =
     Some (Inr [(0, 0), (2, 1), (3, 50)])"
  by (simp add: run_simps spec_graph_def)

lemma spec_graph_run3:
  "r mod 4 = 3 \<Longrightarrow> search_best (sql_store spec_graph) (\<lambda>d. euclideanDistanceSquared d [0, 0]) 4 r =
     Some (Inr [(0, 0), (1, 1), (2, 1), (3, 50)])"
  by (simp add: run_simps spec_graph_def)

lemma spec_graph_entries: "(r::nat) mod 4 = 2 \<or> r mod 4 \<in> {0, 1, 3}"
  by auto

text \<open>
  C4: the example of the spec. Whatever node the random draw picks as entry, the two
  results are node 0 and then node 1 or node 2, and the far node 3 is left out.
\<close>

theorem spec_example:
  "search_ids (sql_store spec_graph) (\<lambda>d. euclideanDistanceSquared d [0, 0]) 2 4 r \<in>
     {Some (Inr [0, 1]), Some (Inr [0, 2])}"
  using spec_graph_entries [of r]
  by (auto simp: search_ids_def spec_graph_run0 spec_graph_run1 spec_graph_run2 spec_graph_run3)

section \<open>Defects shown on small graphs\<close>

text \<open>
  The SQL lists are built from the \<^verbatim>\<open>[id, distance]\<close> pairs, so distances become
  ids. Node 1, an exact match of the query and a layer-0 neighbour of the entry, is
  excluded as a target because the entry's distance is 1. The search returns only the
  entry. The same query with ids only would have fetched node 1.
\<close>

theorem literal_clash_misses_exact_match:
  "search_ids (sql_store literal_clash_graph) (\<lambda>d. euclideanDistanceSquared d [0]) 2 2 0 = Some (Inr [0]) \<and>
   euclideanDistanceSquared [0] [0] = Inr 0 \<and> (0, 1, 0) \<in> set (edges_tbl literal_clash_graph) \<and>
   neighbors (sql_store literal_clash_graph) [0] 0 [0] = [(1, [0])] \<and>
   neighbors (sql_store literal_clash_graph) [0, 1] 0 [0, 1] = []"
  by (simp add: run_simps literal_clash_graph_def)

text \<open>
  Admission compares with the last element of the list, which after a push is the
  neighbour pushed last, not the worst entry. Node 14 (distance 4) is examined after node
  13 (distance 0) was pushed and is rejected, although it is closer than node 11
  (distance 9), which is returned. Node 14 stays cached and is never fetched again.
\<close>

theorem admission_drops_closer_neighbour:
  "search_ids (sql_store last_pushed_graph) (\<lambda>d. euclideanDistanceSquared d [0]) 3 3 0 = Some (Inr [13, 10, 11]) \<and>
   euclideanDistanceSquared [2] [0] = Inr 4 \<and> euclideanDistanceSquared [3] [0] = Inr 9 \<and>
   (11, 14, 0) \<in> set (edges_tbl last_pushed_graph)"
  by (simp add: run_simps last_pushed_graph_def)

text \<open>
  Raising \<open>ef\<close> can lose a true neighbour, against the monotonicity property of the
  spec. With \<open>ef = 2\<close> the search finds the exact top 2, \<open>[0, 1]\<close>; with \<open>ef = 3\<close>
  it returns \<open>[0, 4]\<close>. At \<open>ef = 3\<close>, node 1 is compared with node 0, which was just
  pushed at distance 0.25, not with the worst entry, and is rejected. Being cached, it is
  then excluded from every later neighbour query.
\<close>

theorem ef_not_monotone:
  "search_ids (sql_store mono_graph) (\<lambda>d. euclideanDistanceSquared d [13 / 2]) 2 2 2 = Some (Inr [0, 1]) \<and>
   search_ids (sql_store mono_graph) (\<lambda>d. euclideanDistanceSquared d [13 / 2]) 2 3 2 = Some (Inr [0, 4]) \<and>
   exact_top_k (nodes_tbl mono_graph) [13 / 2] 2 = [0, 1] \<and>
   recall [0, 4] [0, 1] < recall [0, 1] [0, 1]"
proof (intro conjI)
  show "search_ids (sql_store mono_graph) (\<lambda>d. euclideanDistanceSquared d [13 / 2]) 2 2 2 = Some (Inr [0, 1])"
    by (simp add: run_simps mono_graph_def power_divide)
  show "search_ids (sql_store mono_graph) (\<lambda>d. euclideanDistanceSquared d [13 / 2]) 2 3 2 = Some (Inr [0, 4])"
    by (simp add: run_simps mono_graph_def power_divide)
  show "exact_top_k (nodes_tbl mono_graph) [13 / 2] 2 = [0, 1]"
    by (simp add: exact_top_k_def mono_graph_def sq_euclid_def power_divide)
  show "recall [0, 4] [0, 1] < recall [0, 1] [0, 1]"
    by (simp add: recall_def)
qed

text \<open>
  Two searches that share a connection can interleave between the
  \<^verbatim>\<open>CREATE TEMP TABLE filtered_edges\<close> of one and its join. Search A (query
  \<open>[0.5]\<close>, entry 0) run alone finds nodes 0 and 1. Search B (query \<open>[5.5]\<close>, entry 2)
  replaces the table with its own, empty one before A's join runs. A then sees no
  neighbours, leaves its loop, and ends with its entry point alone.
\<close>

theorem shared_temp_table_race:
  "(\<exists>st'. descend (sql_store race_graph) (\<lambda>d. euclideanDistanceSquared d [1 / 2]) 20 1
            \<lparr>currentBest = [(0, 1 / 4)], cache = []\<rparr> = Some (Inr st') \<and>
          currentBest st' = [(0, 1 / 4), (1, 1 / 4)]) \<and>
   (\<exists>tmp a b. qschedule race_graph (\<lambda>d. euclideanDistanceSquared d [1 / 2]) (\<lambda>d. euclideanDistanceSquared d [11 / 2]) 20
            [True, True, True, False, False, False, True, False, True, True]
            ([], \<lparr>qpc = QRound 1, qst = \<lparr>currentBest = [(0, 1 / 4)], cache = []\<rparr>\<rparr>,
                 \<lparr>qpc = QRound 1, qst = \<lparr>currentBest = [(2, 1 / 4)], cache = []\<rparr>\<rparr>) = (tmp, a, b) \<and>
          qpc a = QDone \<and> currentBest (qst a) = [(0, 1 / 4)])"
proof (intro conjI)
  show "\<exists>st'. descend (sql_store race_graph) (\<lambda>d. euclideanDistanceSquared d [1 / 2]) 20 1
            \<lparr>currentBest = [(0, 1 / 4)], cache = []\<rparr> = Some (Inr st') \<and>
          currentBest st' = [(0, 1 / 4), (1, 1 / 4)]"
    by (simp add: run_simps race_graph_def power_divide)
  show "\<exists>tmp a b. qschedule race_graph (\<lambda>d. euclideanDistanceSquared d [1 / 2]) (\<lambda>d. euclideanDistanceSquared d [11 / 2]) 20
            [True, True, True, False, False, False, True, False, True, True]
            ([], \<lparr>qpc = QRound 1, qst = \<lparr>currentBest = [(0, 1 / 4)], cache = []\<rparr>\<rparr>,
                 \<lparr>qpc = QRound 1, qst = \<lparr>currentBest = [(2, 1 / 4)], cache = []\<rparr>\<rparr>) = (tmp, a, b) \<and>
          qpc a = QDone \<and> currentBest (qst a) = [(0, 1 / 4)]"
    by (simp add: race_graph_def Let_def filtered_edges_def join_nodes_def not_expanded_def pair_key_def
        entry_has_layer_def next_layer_def)
qed

section \<open>The temporary-table race in the page\<close>

lemmas qpage_simps = page_simps search_resume_def qpage_of_def fail_task_def posts_query_def round_candidates_def
  max_layer_def init_page_def mix_tables_def race_ds_def race_dist_def race_encoder_def
  sql_store_def init_best_def euclideanDistanceSquared_def accumulate_loop.simps
  not_expanded_def pair_key_def entry_has_layer_def filtered_edges_def join_nodes_def
  cached_distance_def admits_def next_layer_def floor_log2.simps layer_search.simps expand_round_def

lemma race_solo:
  "dq_engine race_dist (race_ds ''r'') ''near'' 5 20 0 = Some (Inr [Some ''d0'', Some ''d1''])"
  by (simp add: dq_engine_def search_ids_def search_best_def qpage_simps power_divide)

lemma race_setup:
  "\<exists>cs. qpage_run race_dist race_ds ([Resume 0 0, Resume 0 0, Resume 0 0, Resume 0 0, Resume 0 0, Resume 0 0, Resume 0 0, Input ''far'', FireTimer 0, Resume 1 2, Resume 1 2])
     (qpage_of (init_page ''r'' ''near'' False)) = Some cs \<and>
     length (tasks (pg cs)) = 2 \<and> pc (tasks (pg cs) ! 0) = PSearch 0 ''r'' ''near'' \<and>
     pc (tasks (pg cs) ! 1) = PSearch 0 ''r'' ''far'' \<and> reenable (tasks (pg cs) ! 0) \<and>
     nodes_reg (pg cs) = Some ''r'' \<and> edges_reg (pg cs) = Some ''r'' \<and> 0 \<notin> closed_conns (pg cs) \<and>
     qthreads cs 0 = Some race_A0 \<and> qthreads cs 1 = Some race_B0 \<and> temps cs 0 = [] \<and> text_value (pg cs) = ''far''"
  by (simp add: qpage_simps power_divide race_A0_def race_B0_def)

lemma race_live:
  "sched_live (race_ds ''r'') (race_dist ''near'') (race_dist ''far'') 20 [True, True, True, False, False, False, True, False, True, True]
     ([], race_A0, race_B0)"
  by (simp add: race_ds_def race_dist_def race_encoder_def race_A0_def race_B0_def Let_def filtered_edges_def
      join_nodes_def not_expanded_def pair_key_def entry_has_layer_def next_layer_def final_pc_def)

lemma race_sched:
   "\<exists>tmp a b. qschedule (race_ds ''r'') (race_dist ''near'') (race_dist ''far'') 20
     [True, True, True, False, False, False, True, False, True, True] ([], race_A0, race_B0) = (tmp, a, b) \<and>
     qpc a = QDone \<and> currentBest (qst a) = [(0, 1 / 4)]"
  by (simp add: race_ds_def race_dist_def race_encoder_def race_A0_def race_B0_def Let_def filtered_edges_def
      join_nodes_def not_expanded_def pair_key_def entry_has_layer_def next_layer_def)

text \<open>
  The temporary-table race happens in the page. The first search of the page (text
  \<^verbatim>\<open>near\<close>) and an instant search (text \<^verbatim>\<open>far\<close>) run on connection 0 at the same
  time, and their rounds interleave on its one \<^verbatim>\<open>filtered_edges\<close> table. The first
  search then displays only \<^verbatim>\<open>d0\<close>; run alone it returns \<^verbatim>\<open>d0\<close> and
  \<^verbatim>\<open>d1\<close>.
\<close>

theorem page_temp_table_race:
  "dq_engine race_dist (race_ds ''r'') ''near'' 5 20 0 = Some (Inr [Some ''d0'', Some ''d1'']) \<and>
   (\<exists>cs. qpage_run race_dist race_ds
      ([Resume 0 0, Resume 0 0, Resume 0 0, Resume 0 0, Resume 0 0, Resume 0 0, Resume 0 0,
        Input ''far'', FireTimer 0, Resume 1 2, Resume 1 2] @
       sched_events 0 1 0 2 [True, True, True, False, False, False, True, False, True, True] @
       [Resume 0 0, Resume 0 0])
      (qpage_of (init_page ''r'' ''near'' False)) = Some cs \<and>
    output_html (pg cs) = Some ''<p>d0</p>'' \<and> text_value (pg cs) = ''far'')"
proof
  show "dq_engine race_dist (race_ds ''r'') ''near'' 5 20 0 = Some (Inr [Some ''d0'', Some ''d1''])"
    by (rule race_solo)
next
  let ?sel = "[True, True, True, False, False, False, True, False, True, True]"
  obtain cs where cs: "qpage_run race_dist race_ds ([Resume 0 0, Resume 0 0, Resume 0 0, Resume 0 0, Resume 0 0, Resume 0 0, Resume 0 0,
        Input ''far'', FireTimer 0, Resume 1 2, Resume 1 2]) (qpage_of (init_page ''r'' ''near'' False)) = Some cs"
    and f: "length (tasks (pg cs)) = 2" "pc (tasks (pg cs) ! 0) = PSearch 0 ''r'' ''near''"
     "pc (tasks (pg cs) ! 1) = PSearch 0 ''r'' ''far''" "reenable (tasks (pg cs) ! 0)"
     "nodes_reg (pg cs) = Some ''r''" "edges_reg (pg cs) = Some ''r''" "0 \<notin> closed_conns (pg cs)"
     "qthreads cs 0 = Some race_A0" "qthreads cs 1 = Some race_B0" "temps cs 0 = []" "text_value (pg cs) = ''far''"
    using race_setup by blast
  obtain tmp a b where q: "qschedule (race_ds ''r'') (race_dist ''near'') (race_dist ''far'') 20 ?sel ([], race_A0, race_B0) = (tmp, a, b)"
    and a: "qpc a = QDone" "currentBest (qst a) = [(0, 1 / 4)]"
    using race_sched by blast
  have mix: "mix_tables race_ds ''r'' ''r'' ''r'' = race_ds ''r''" by (simp add: mix_tables_def race_ds_def)
  let ?cs2 = "cs\<lparr>temps := (temps cs)(0 := tmp), qthreads := (qthreads cs)(0 \<mapsto> a, 1 \<mapsto> b)\<rparr>"
  have live': "sched_live (mix_tables race_ds ''r'' ''r'' ''r'') (race_dist ''near'') (race_dist ''far'') 20 ?sel ([], race_A0, race_B0)"
    using race_live by (simp only: mix_tables_same)
  have q': "qschedule (mix_tables race_ds ''r'' ''r'' ''r'') (race_dist ''near'') (race_dist ''far'') 20 ?sel ([], race_A0, race_B0) = (tmp, a, b)"
    using q by (simp only: mix_tables_same)
  have run2: "qpage_run race_dist race_ds (sched_events 0 1 0 2 ?sel) cs = Some ?cs2"
    using qpage_run_qschedule [where s = "pg cs" and cs = cs and a = 0 and b = 1 and c = 0 and p = "''r''"
        and n = "''r''" and e = "''r''" and ds = race_ds and dqf = race_dist and sel = ?sel, OF _ _ _ f(2,3,5-7) refl f(8,9)]
      f(1,10) live' q' by simp
  obtain cs' where fin: "qpage_run race_dist race_ds [Resume 0 0, Resume 0 0] ?cs2 = Some cs'"
      "output_html (pg cs') = Some ''<p>d0</p>''" "text_value (pg cs') = ''far''"
    using f a by (simp add: search_resume_def resume_def set_pc_def Let_def sql_store_def race_ds_def mix_tables_def)
  have "qpage_run race_dist race_ds
      ([Resume 0 0, Resume 0 0, Resume 0 0, Resume 0 0, Resume 0 0, Resume 0 0, Resume 0 0,
        Input ''far'', FireTimer 0, Resume 1 2, Resume 1 2] @
       sched_events 0 1 0 2 ?sel @ [Resume 0 0, Resume 0 0])
      (qpage_of (init_page ''r'' ''near'' False)) = Some cs'"
    by (simp only: qpage_run_append cs run2 fin(1) option.case)
  with fin(2,3) show "\<exists>cs. qpage_run race_dist race_ds
      ([Resume 0 0, Resume 0 0, Resume 0 0, Resume 0 0, Resume 0 0, Resume 0 0, Resume 0 0,
        Input ''far'', FireTimer 0, Resume 1 2, Resume 1 2] @
       sched_events 0 1 0 2 ?sel @ [Resume 0 0, Resume 0 0])
      (qpage_of (init_page ''r'' ''near'' False)) = Some cs \<and>
    output_html (pg cs) = Some ''<p>d0</p>'' \<and> text_value (pg cs) = ''far''" by blast
qed

section \<open>Witnesses of the search theorems\<close>

theorem search_best_returns_witness:
  "\<exists>res. search_best (sql_store spec_graph) (\<lambda>d. euclideanDistanceSquared d [0, 0]) 4 0 = Some res"
  by (rule search_best_returns [OF sql_store_contract])

theorem search_best_errors_witness:
  "search_best (sql_store bad_dim_graph) (\<lambda>d. euclideanDistanceSquared d [0, 0]) 1 0 = Some (Inl DimensionMismatch) \<and>
   (\<exists>row. row \<in> set (nodes_tbl bad_dim_graph) \<and> euclideanDistanceSquared (snd row) [0, 0] = Inl DimensionMismatch)"
proof -
  have run: "search_best (sql_store bad_dim_graph) (\<lambda>d. euclideanDistanceSquared d [0, 0]) 1 0 = Some (Inl DimensionMismatch)"
    by (simp add: run_simps bad_dim_graph_def)
  from search_best_errors [OF sql_store_contract run] run show ?thesis by blast
qed

theorem search_best_result_witness:
  "search_best (sql_store spec_graph) (\<lambda>d. euclideanDistanceSquared d [0, 0]) 4 0 = Some (Inr [(0, 0), (1, 1), (2, 1), (3, 50)]) \<and>
   distinct (map fst [(0::int, 0::real), (1, 1), (2, 1), (3, 50)]) \<and> sorted (map snd [(0::int, 0::real), (1, 1), (2, 1), (3, 50)])"
  using search_best_result [OF sql_store_contract spec_graph_run0] spec_graph_run0 by simp

theorem search_ids_bounds_witness:
  "search_ids (sql_store spec_graph) (\<lambda>d. euclideanDistanceSquared d [0, 0]) 2 4 0 = Some (Inr [0, 1]) \<and>
   distinct [0::int, 1] \<and> length [0::int, 1] \<le> min 2 (max 1 4)"
proof -
  have run: "search_ids (sql_store spec_graph) (\<lambda>d. euclideanDistanceSquared d [0, 0]) 2 4 0 = Some (Inr [0, 1])"
    by (simp add: search_ids_def spec_graph_run0)
  from search_ids_bounds [OF sql_store_contract run] run show ?thesis by simp
qed

theorem search_best_progress_witness:
  "init_best (sql_store spec_graph) (\<lambda>d. euclideanDistanceSquared d [0, 0]) 3 = Inr [(3, 50)] \<and>
   snd (hd [(0::int, 0::real), (1, 1), (2, 1), (3, 50)]) \<le> 50"
proof -
  have ib: "init_best (sql_store spec_graph) (\<lambda>d. euclideanDistanceSquared d [0, 0]) 3 = Inr [(3, 50)]"
    by (simp add: run_simps spec_graph_def)
  from search_best_progress [OF sql_store_contract _ ib spec_graph_run3] ib show ?thesis by simp
qed

theorem isolated_entry_returned_witness:
  "search_ids (sql_store single_node_graph) (\<lambda>d. euclideanDistanceSquared d [0, 0]) 5 0 0 = Some (Inr [0])"
  using isolated_entry_returned [where t = single_node_graph and r = 0 and i = 0 and v = "[1, 1]"
      and dq = "\<lambda>d. euclideanDistanceSquared d [0, 0]" and d = 2 and k = 5 and ef = 0]
  by (simp add: single_node_graph_def euclideanDistanceSquared_def accumulate_loop.simps)


theorem searchWithSql_total_witness:
  "\<exists>ids. search_ids (sql_store spec_graph) (\<lambda>data. euclideanDistanceSquared data [0, 0]) 2 4 1 = Some (Inr ids) \<and>
         searchWithSql (sql_store spec_graph) [0, 0] 2 4 1 = Some (Inr (map (fetch_text (sql_store spec_graph)) ids))"
proof -
  have "list_all (\<lambda>row. length (snd row) = length [0, 0 :: real]) (nodes_tbl spec_graph)"
    by (simp add: spec_graph_def)
  from searchWithSql_total [OF sql_store_contract this] show ?thesis .
qed

theorem searchWithSql_q_total_witness:
  "\<exists>docs. searchWithSql_q (sql_store quantized_graph) [0, 1] 1 1 0 = Some (Inr docs)"
proof -
  have "list_all (\<lambda>row. length (ta_values (snd row)) = length [0, 1 :: real]) (nodes_tbl quantized_graph)"
    by (simp add: quantized_graph_def)
  from searchWithSql_q_total [OF sql_store_contract this] show ?thesis .
qed

section \<open>Session runs\<close>

lemmas engine_simps = plain_engine_def searchWithSql_def run_simps toy_encoder_def toy_ds_def mismatch_ds_def

lemma toy_zero: "plain_engine toy_encoder (toy_ds ''toy'') ''zero'' 5 20 0 = Some (Inr [Some ''toy/doc0'', Some ''toy/doc1''])"
  by (simp add: engine_simps)

lemma toy_ten: "plain_engine toy_encoder (toy_ds ''toy'') ''ten'' 5 20 0 = Some (Inr [Some ''toy/doc1'', Some ''toy/doc0''])"
  by (simp add: engine_simps)

lemma toy_mixed: "plain_engine toy_encoder (mix_tables toy_ds ''blogs'' ''blogs'' ''toy'') ''zero'' 5 20 0 = Some (Inr [Some ''toy/doc1'', Some ''toy/doc0''])"
  by (simp add: engine_simps mix_tables_def)

lemma toy_frankenstein_mixed:
  "plain_engine toy_encoder (mix_tables toy_ds ''frankenstein'' ''blogs'' ''frankenstein'') ''zero'' 5 20 0 =
     Some (Inr [Some ''frankenstein/doc0'', Some ''frankenstein/doc1''])"
  by (simp add: engine_simps mix_tables_def)

lemma mm0: "plain_engine toy_encoder (mismatch_ds ''m'') ''zero'' 5 20 0 = Some (Inr [Some ''d0''])"
  by (simp add: engine_simps)

lemma mm1: "plain_engine toy_encoder (mismatch_ds ''m'') ''zero'' 5 20 1 = Some (Inl DimensionMismatch)"
  by (simp add: engine_simps)

lemma toy_shakespeare:
  "plain_engine toy_encoder (toy_ds ''shakespeare'') ''got some blood on their hands'' 5 20 0 =
     Some (Inr [Some ''shakespeare/doc0'', Some ''shakespeare/doc1''])"
  by (simp add: engine_simps)


section \<open>Witnesses of the session theorems\<close>

theorem stale_search_overwrites_witness:
  "plain_engine toy_encoder (toy_ds ''toy'') ''zero'' 5 20 0 = Some (Inr [Some ''toy/doc0'', Some ''toy/doc1'']) \<and>
   plain_engine toy_encoder (toy_ds ''toy'') ''ten'' 5 20 0 = Some (Inr [Some ''toy/doc1'', Some ''toy/doc0'']) \<and>
   (\<exists>s. page_run (plain_engine toy_encoder) toy_ds (replicate 8 (Resume 0 0) @
            [Input ''zero'', FireTimer 0, Input ''ten'', FireTimer 1,
             Resume 2 0, Resume 2 0, Resume 2 0, Resume 1 0, Resume 1 0, Resume 1 0])
            (init_page ''toy'' ''zero'' True) = Some s \<and>
         text_value s = ''ten'' \<and> output_html s = Some ''<p>toy/doc0</p><p>toy/doc1</p>'' \<and>
         list_all (\<lambda>t. pc t = Done) (tasks s))"
  using stale_search_overwrites [of "''toy''" "plain_engine toy_encoder" toy_ds "''zero''" 0
      "[Some ''toy/doc0'', Some ''toy/doc1'']" "''zero''" "[Some ''toy/doc0'', Some ''toy/doc1'']"
      "''ten''" "[Some ''toy/doc1'', Some ''toy/doc0'']" True]
  by (simp add: toy_zero toy_ten)

theorem failed_search_locks_page_witness:
  "plain_engine toy_encoder (mismatch_ds ''m'') ''zero'' 5 20 1 = Some (Inl DimensionMismatch) \<and>
   (\<exists>s. page_run (plain_engine toy_encoder) mismatch_ds
          (replicate 8 (Resume 0 0) @ [ClickSearch, Resume 1 1, Resume 1 1] @ [Input ''again''])
          (init_page ''m'' ''zero'' False) = Some s \<and>
        disabled s \<and> timers s = [] \<and> page_step (plain_engine toy_encoder) mismatch_ds ClickSearch s = None \<and>
        timers (input_handler ''more'' s) = [])"
proof -
  have "\<exists>s. page_run (plain_engine toy_encoder) mismatch_ds
          (replicate 8 (Resume 0 0) @ [ClickSearch, Resume 1 1, Resume 1 1] @ [Input ''again''])
          (init_page ''m'' ''zero'' False) = Some s"
    using mm0 mm1 by (simp add: page_simps init_page_def numeral_eq_Suc mix_tables_same)
  then obtain s where run: "page_run (plain_engine toy_encoder) mismatch_ds
          (replicate 8 (Resume 0 0) @ [ClickSearch, Resume 1 1, Resume 1 1] @ [Input ''again''])
          (init_page ''m'' ''zero'' False) = Some s" by blast
  have "disabled s \<and> timers s = [] \<and> page_step (plain_engine toy_encoder) mismatch_ds ClickSearch s = None \<and>
        timers (input_handler ''more'' s) = []"
    by (rule failed_search_locks_page [OF _ mm0 mm1 run]) simp_all
  with run mm1 show ?thesis by blast
qed

theorem mixed_dataset_result_witness:
  "plain_engine toy_encoder (mix_tables toy_ds ''blogs'' ''blogs'' ''toy'') ''zero'' 5 20 0 =
     Some (Inr [Some ''toy/doc1'', Some ''toy/doc0'']) \<and>
   (\<exists>s. page_run (plain_engine toy_encoder) toy_ds (replicate 8 (Resume 0 0) @
          [Input ''zero'', FireTimer 0, Resume 1 0, ClickBlogs] @ replicate 5 (Resume 2 0) @ [Resume 1 0, Resume 1 0])
          (init_page ''toy'' ''zero'' True) = Some s \<and>
        output_html s = Some ''<p>toy/doc1</p><p>toy/doc0</p>'' \<and> path_value s = ''blogs'' \<and>
        nodes_reg s = Some ''blogs'' \<and> list_all (\<lambda>t. pc t = Done) (tasks s))"
  using mixed_dataset_result [of "''toy''" "plain_engine toy_encoder" toy_ds "''zero''" 0
      "[Some ''toy/doc0'', Some ''toy/doc1'']" "''zero''" "[Some ''toy/doc1'', Some ''toy/doc0'']" True]
  by (simp add: toy_zero toy_mixed)

theorem interleaved_loads_mix_graphs_witness:
  "\<exists>s. page_run (plain_engine toy_encoder) toy_ds (replicate 8 (Resume 0 0) @
          [ClickBlogs, Resume 1 0, Resume 1 0, Resume 1 0, ClickFrankenstein,
           Resume 2 0, Resume 2 0, Resume 2 0, Resume 2 0, Resume 1 0, Input ''zero'', FireTimer 0,
           Resume 3 0, Resume 3 0, Resume 3 0]) (init_page ''toy'' ''zero'' True) = Some s \<and>
        nodes_reg s = Some ''frankenstein'' \<and> edges_reg s = Some ''blogs'' \<and>
        output_html s = Some ''<p>frankenstein/doc0</p><p>frankenstein/doc1</p>''"
  using interleaved_loads_mix_graphs [of "''toy''" "plain_engine toy_encoder" toy_ds "''zero''" 0
      "[Some ''toy/doc0'', Some ''toy/doc1'']" "''zero''" "[Some ''frankenstein/doc0'', Some ''frankenstein/doc1'']" True]
  by (simp add: toy_zero toy_frankenstein_mixed)

theorem search_on_closed_connection_witness:
  "\<exists>s. page_run (plain_engine toy_encoder) toy_ds
          (replicate 8 (Resume 0 0) @ [ClickShakespeare, Input ''ten'', FireTimer 0, Resume 1 0, Resume 2 0])
          (init_page ''toy'' ''zero'' True) = Some s \<and>
        pc (tasks s ! 2) = PSearch 0 ''shakespeare'' ''ten'' \<and> 0 \<in> closed_conns s \<and>
        (\<exists>s'. page_run (plain_engine toy_encoder) toy_ds (Resume 2 0 # replicate 8 (Resume 1 0)) s = Some s' \<and>
              pc (tasks s' ! 2) = Failed \<and>
              output_html s' = Some ''<p>shakespeare/doc0</p><p>shakespeare/doc1</p>'' \<and> text_value s' = ''ten'')"
  using search_on_closed_connection [of "''toy''" "plain_engine toy_encoder" toy_ds "''zero''" 0
      "[Some ''toy/doc0'', Some ''toy/doc1'']" "[Some ''shakespeare/doc0'', Some ''shakespeare/doc1'']" "''ten''" True]
  by (simp add: toy_zero toy_shakespeare)

theorem connection_leak_witness:
  "\<exists>s. page_run (plain_engine toy_encoder) toy_ds (replicate 8 (Resume 0 0) @ ClickBlogs # replicate 5 (Resume 1 0))
          (init_page ''toy'' ''zero'' True) = Some s \<and>
        conn s = Some 1 \<and> closed_conns s = {} \<and> next_conn s = 2 \<and> list_all (\<lambda>t. pc t = Done) (tasks s)"
  using connection_leak [of "''toy''" "plain_engine toy_encoder" toy_ds "''zero''" 0
      "[Some ''toy/doc0'', Some ''toy/doc1'']" True]
  by (simp add: toy_zero)

theorem render_output_roundtrip_witness:
  "read_paragraphs (render_output [Some ''toy/doc0'', None]) = [''toy/doc0'', ''undefined'']"
  using render_output_roundtrip [of "[Some ''toy/doc0'', None]"] by simp

theorem render_output_injection_witness:
  "read_paragraphs (render_output [Some ''a</p><p>b'']) = [''a'', ''b''] \<and>
   render_output [Some ''a</p><p>b''] = render_output [Some ''a'', Some ''b'']"
  using render_output_injection [of "''a''" "''b''"] by simp

theorem pages_start_display_search_witness:
  "searchWithSql (sql_store (toy_ds ''toy'')) (toy_encoder ''zero'') 5 20 0 = Some (Inr [Some ''toy/doc0'', Some ''toy/doc1'']) \<and>
   searchWithSql_q (sql_store (toy_qds ''toy'')) (toy_encoder ''zero'') 5 20 0 = Some (Inr [Some ''toy/q0'', Some ''toy/q1'']) \<and>
   (\<exists>s. page_run (plain_engine toy_encoder) toy_ds (replicate 8 (Resume 0 0)) (init_page ''toy'' ''zero'' True) = Some s \<and>
        output_html s = Some ''<p>toy/doc0</p><p>toy/doc1</p>'' \<and> \<not> disabled s \<and>
        nodes_reg s = Some ''toy'' \<and> edges_reg s = Some ''toy'' \<and> conn s = Some 0) \<and>
   (\<exists>s. quantized_page_run toy_encoder toy_qds (replicate 8 (Resume 0 0)) (init_page ''toy'' ''zero'' True) = Some s \<and>
        output_html s = Some ''<p>toy/q0</p><p>toy/q1</p>'' \<and> \<not> disabled s \<and>
        nodes_reg s = Some ''toy'' \<and> edges_reg s = Some ''toy'' \<and> conn s = Some 0)"
proof -
  have q: "searchWithSql (sql_store (toy_ds ''toy'')) (toy_encoder ''zero'') 5 20 0 = Some (Inr [Some ''toy/doc0'', Some ''toy/doc1''])"
    using toy_zero by (simp add: plain_engine_def)
  have qq: "searchWithSql_q (sql_store (toy_qds ''toy'')) (toy_encoder ''zero'') 5 20 0 = Some (Inr [Some ''toy/q0'', Some ''toy/q1''])"
    by (simp add: run_simps toy_qds_def toy_encoder_def searchWithSql_q_def euclideanDistanceSquared_q_def
        quantizeVector_def quant_component_def quant_scale_def ta_store_def Let_def power2_eq_square)
  show ?thesis
    using pages_start_display_search [of "''toy''" toy_ds toy_encoder "''zero''" 0 _ toy_qds _ True, OF _ q qq] q qq by simp
qed

theorem debounce_single_timer_witness:
  "\<exists>s. reachable (plain_engine toy_encoder) toy_ds (init_page ''toy'' ''zero'' False) s \<and>
        timers s = [1] \<and> length (timers s) \<le> 1 \<and> set (timers s) \<subseteq> set_option (timeoutId s)"
proof -
  have "\<exists>s. page_run (plain_engine toy_encoder) toy_ds [Input ''a'', Input ''ab'']
          (init_page ''toy'' ''zero'' False) = Some s \<and> timers s = [1]"
    by (simp add: page_simps init_page_def)
  then obtain s where run: "page_run (plain_engine toy_encoder) toy_ds [Input ''a'', Input ''ab'']
          (init_page ''toy'' ''zero'' False) = Some s" and t: "timers s = [1]" by blast
  have r: "reachable (plain_engine toy_encoder) toy_ds (init_page ''toy'' ''zero'' False) s"
    using run by (rule reachable_run)
  with debounce_single_timer [OF r] t show ?thesis by blast
qed

theorem debounce_searches_last_input_witness:
  "(\<exists>s'. page_run (plain_engine toy_encoder) toy_ds [Input ''a'', Input ''ab'', FireTimer 1]
           (init_page ''toy'' ''zero'' False) = Some s' \<and> timers s' = [] \<and>
         tasks s' = [\<lparr>pc = PEmbed ''zero'', reenable = True\<rparr>, \<lparr>pc = PEmbed ''ab'', reenable = False\<rparr>]) \<and>
   page_run (plain_engine toy_encoder) toy_ds [Input ''a'', Input ''ab'', FireTimer 0] (init_page ''toy'' ''zero'' False) = None"
  using debounce_searches_last_input [where q = "''a''" and qs = "[''ab'']",
      OF reachable.start [of "plain_engine toy_encoder" toy_ds "init_page ''toy'' ''zero'' False"]]
  by (simp add: init_page_def performSearch_def new_task_def)



lemma toy_fetch_mixed: "plain_engine toy_encoder (mix_tables toy_ds ''toy'' ''toy'' ''blogs'') ''zero'' 5 20 0 = Some (Inr [Some ''blogs/doc0'', Some ''blogs/doc1''])"
  by (simp add: engine_simps mix_tables_def)

theorem failed_fetch_mixes_datasets_witness:
  "\<exists>s. page_run_r (plain_engine toy_encoder) toy_ds
          (map Ev (replicate 8 (Resume 0 0) @ [SetPath ''blogs'', Input ''ten'', FireTimer 0, Resume 1 0, Resume 1 0, Resume 1 0]) @
           Reject 1 # map Ev [Input ''zero'', FireTimer 1, Resume 2 0, Resume 2 0, Resume 2 0])
          (init_page ''toy'' ''zero'' False) = Some s \<and>
        path_value s = ''blogs'' \<and> cachedPath s = ''blogs'' \<and> nodes_reg s = Some ''toy'' \<and> edges_reg s = Some ''toy'' \<and>
        output_html s = Some ''<p>blogs/doc0</p><p>blogs/doc1</p>''"
  using failed_fetch_mixes_datasets [of "''toy''" "plain_engine toy_encoder" toy_ds "''zero''" 0
      "[Some ''toy/doc0'', Some ''toy/doc1'']" "''blogs''" "''zero''" "[Some ''blogs/doc0'', Some ''blogs/doc1'']" "''ten''" False]
  by (simp add: toy_zero toy_fetch_mixed)

theorem closed_conn_needs_reload_or_failure_witness:
  "\<exists>s. page_run_r (plain_engine toy_encoder) toy_ds
          (map Ev (replicate 8 (Resume 0 0) @ [SetPath ''blogs'', Input ''ten'', FireTimer 0, Resume 1 0, Resume 1 0]) @ [Reject 1])
          (init_page ''toy'' ''zero'' False) = Some s \<and> conn s = Some 0 \<and> 0 \<in> closed_conns s \<and>
        (\<forall>i < length (tasks s). \<not> Session.reloading (pc (tasks s ! i))) \<and>
        (\<exists>i < length (tasks s). Session.reloading (pc (tasks s ! i)) \<or> pc (tasks s ! i) = Failed)"
proof -
  have "\<exists>s. page_run_r (plain_engine toy_encoder) toy_ds
          (map Ev (replicate 8 (Resume 0 0) @ [SetPath ''blogs'', Input ''ten'', FireTimer 0, Resume 1 0, Resume 1 0]) @ [Reject 1])
          (init_page ''toy'' ''zero'' False) = Some s \<and> conn s = Some 0 \<and> 0 \<in> closed_conns s \<and>
        (\<forall>i < length (tasks s). \<not> Session.reloading (pc (tasks s ! i)))"
    unfolding page_run_r_Ev page_start_run [of "''toy''" "plain_engine toy_encoder" toy_ds "''zero''" 0 _ _ False, OF _ toy_zero, simplified]
    by (simp add: page_run_r_map_Ev page_simps loaded_page_def finished_def less_Suc_eq Let_def)
  then obtain s where run: "page_run_r (plain_engine toy_encoder) toy_ds
          (map Ev (replicate 8 (Resume 0 0) @ [SetPath ''blogs'', Input ''ten'', FireTimer 0, Resume 1 0, Resume 1 0]) @ [Reject 1])
          (init_page ''toy'' ''zero'' False) = Some s" and c: "conn s = Some 0" "0 \<in> closed_conns s"
    and nr: "\<forall>i < length (tasks s). \<not> Session.reloading (pc (tasks s ! i))" by blast
  from closed_conn_needs_reload_or_failure [OF run c] run c nr show ?thesis by blast
qed

theorem input_inert_unless_instant_witness:
  "page_run (plain_engine toy_encoder) toy_ds [ToggleInstant False] (init_page ''toy'' ''zero'' False) =
     Some ((init_page ''toy'' ''zero'' False)\<lparr>instant := False\<rparr>) \<and>
   page_run (plain_engine toy_encoder) toy_ds (map Input [''t'', ''te'', ''ten''])
     ((init_page ''toy'' ''zero'' False)\<lparr>instant := False\<rparr>) =
     Some ((init_page ''toy'' ''zero'' False)\<lparr>instant := False, text_value := ''ten''\<rparr>)"
  using input_inert_unless_instant [of "(init_page ''toy'' ''zero'' False)\<lparr>instant := False\<rparr>"
      "plain_engine toy_encoder" toy_ds "[''t'', ''te'', ''ten'']"]
  by simp

theorem blogs_link_stops_instant_search_witness:
  "\<exists>s'. page_run (plain_engine toy_encoder) toy_ds (ClickBlogs # [Resume 0 0, ClickSearch, ToggleInstant False])
          (init_page ''toy'' ''zero'' False) = Some s' \<and>
        ClickFrankenstein \<notin> set [Resume 0 0, ClickSearch, ToggleInstant False] \<and>
        ToggleInstant True \<notin> set [Resume 0 0, ClickSearch, ToggleInstant False] \<and>
        page_run (plain_engine toy_encoder) toy_ds (map Input [''l'', ''lo'']) s' = Some (s'\<lparr>text_value := ''lo''\<rparr>)"
proof -
  obtain s' where run: "page_run (plain_engine toy_encoder) toy_ds (ClickBlogs # [Resume 0 0, ClickSearch, ToggleInstant False])
      (init_page ''toy'' ''zero'' False) = Some s'"
    by (simp add: page_simps init_page_def)
  have "ClickFrankenstein \<notin> set [Resume 0 0, ClickSearch, ToggleInstant False]"
    "ToggleInstant True \<notin> set [Resume 0 0, ClickSearch, ToggleInstant False]" by simp_all
  from blogs_link_stops_instant_search [OF run this, of "[''l'', ''lo'']"] run this show ?thesis by auto
qed

theorem failed_reconnect_breaks_page_witness:
  "\<exists>s s'. page_run_r (plain_engine toy_encoder) toy_ds
          (map Ev (replicate 8 (Resume 0 0) @ [SetPath ''blogs'', Input ''ten'', FireTimer 0, Resume 1 0, Resume 1 0]) @ [Reject 1])
          (init_page ''toy'' ''zero'' False) = Some s \<and> Rejections.broken 0 s \<and>
        page_run_r (plain_engine toy_encoder) toy_ds (map Ev [Input ''zero'', FireTimer 1, Resume 2 0, Resume 2 0, ClickSearch, Resume 3 0, Resume 3 0]) s = Some s' \<and>
        conn s' = Some 0 \<and> 0 \<in> closed_conns s' \<and> output_html s' = output_html s \<and> (\<forall>t \<in> set (tasks s'). \<forall>out. pc t \<noteq> POut out)"
proof -
  have "\<exists>s s'. page_run_r (plain_engine toy_encoder) toy_ds
          (map Ev (replicate 8 (Resume 0 0) @ [SetPath ''blogs'', Input ''ten'', FireTimer 0, Resume 1 0, Resume 1 0]) @ [Reject 1])
          (init_page ''toy'' ''zero'' False) = Some s \<and> Rejections.broken 0 s \<and>
        page_run_r (plain_engine toy_encoder) toy_ds (map Ev [Input ''zero'', FireTimer 1, Resume 2 0, Resume 2 0, ClickSearch, Resume 3 0, Resume 3 0]) s = Some s'"
    unfolding page_run_r_Ev page_start_run [of "''toy''" "plain_engine toy_encoder" toy_ds "''zero''" 0 _ _ False, OF _ toy_zero, simplified]
    by (simp add: page_run_r_map_Ev page_simps loaded_page_def finished_def Rejections.broken_def Let_def)
  then obtain s s' where run: "page_run_r (plain_engine toy_encoder) toy_ds
          (map Ev (replicate 8 (Resume 0 0) @ [SetPath ''blogs'', Input ''ten'', FireTimer 0, Resume 1 0, Resume 1 0]) @ [Reject 1])
          (init_page ''toy'' ''zero'' False) = Some s" and b: "Rejections.broken 0 s"
    and run2: "page_run_r (plain_engine toy_encoder) toy_ds (map Ev [Input ''zero'', FireTimer 1, Resume 2 0, Resume 2 0, ClickSearch, Resume 3 0, Resume 3 0]) s = Some s'"
    by blast
  have "\<forall>e \<in> set (map Ev [Input ''zero'', FireTimer 1, Resume 2 0, Resume 2 0, ClickSearch, Resume 3 0, Resume 3 0]). \<not> path_event e"
    by (simp add: path_event_def)
  from failed_reconnect_breaks_page [OF b run2 this] run b run2 show ?thesis by blast
qed

end
